theory Spec2Isabelle
  imports Main "HOL-Library.Char_ord" "HOL-Library.List_Lexorder"
begin

section \<open>Go values used by the two packages\<close>

text \<open>
  Go strings are byte sequences; \<open>string\<close> (a list of \<open>char\<close>) has the same length
  and the same slicing. An \<open>error\<close> value is \<open>error option\<close>, with \<open>None\<close> for
  \<open>nil\<close>. Operating-system failures carry their errno; \<open>ErrorString\<close> is what
  \<open>errors.New\<close> builds; \<open>SkipDir\<close> is the sentinel of \<open>path/filepath\<close>.
\<close>

datatype errno = ENOENT | EACCES | EPERM | EEXIST | ENOTDIR | EISDIR | ENOTEMPTY | EINVAL | EBUSY | ELOOP | EIO

datatype error = PathError errno | SkipDir | ErrorString string

text \<open>\<open>os.IsNotExist\<close>: true exactly for the "no such file or directory" failure.\<close>

fun IsNotExist :: "error option \<Rightarrow> bool" where
  "IsNotExist (Some (PathError ENOENT)) = True"
| "IsNotExist _ = False"

text \<open>
  A run of Go code either returns or panics. \<open>Inl\<close> is the panic together with
  the state in which it happens, \<open>Inr\<close> the returned value together with the state
  after the call.
\<close>

datatype panic = SliceBoundsOutOfRange | NilDereference | CloseOfClosedChannel | SendOnClosedChannel

text \<open>\<open>os.FileInfo\<close>, reduced to the one method both packages call.\<close>

datatype fileinfo = FileInfo (IsDir: bool)

section \<open>Path functions of the standard library (Unix rules)\<close>

definition Separator :: char where
  "Separator = CHR ''/''"

text \<open>\<open>strings.HasPrefix\<close>.\<close>

definition HasPrefix :: "string \<Rightarrow> string \<Rightarrow> bool" where
  "HasPrefix s pre = (length pre \<le> length s \<and> take (length pre) s = pre)"

text \<open>
  \<open>filepath.Ext\<close>: scan from the last byte towards the front, stop at a separator,
  return the suffix that starts at the first dot met. \<open>ext_scan\<close> gets the bytes still
  to scan (last byte first) and the bytes already passed.
\<close>

fun ext_scan :: "string \<Rightarrow> string \<Rightarrow> string" where
  "ext_scan [] passed = []"
| "ext_scan (c # cs) passed =
     (if c = Separator then []
      else if c = CHR ''.'' then c # passed
      else ext_scan cs (c # passed))"

definition Ext :: "string \<Rightarrow> string" where
  "Ext path = ext_scan (rev path) []"

text \<open>
  \<open>filepath.Base\<close>: the empty path gives \<open>.\<close>; trailing separators are dropped; the
  result is what follows the last separator left; a path of separators only gives the
  separator.
\<close>

definition Base :: "string \<Rightarrow> string" where
  "Base path =
     (if path = [] then ''.''
      else
        let stripped = rev (dropWhile (\<lambda>c. c = Separator) (rev path));
            elem = rev (takeWhile (\<lambda>c. c \<noteq> Separator) (rev stripped))
        in if elem = [] then [Separator] else elem)"

text \<open>\<open>strings.Split(s, "/")\<close> and \<open>strings.Join(elems, "/")\<close>.\<close>

fun split_sep :: "string \<Rightarrow> string list" where
  "split_sep [] = [[]]"
| "split_sep (c # cs) =
     (if c = Separator then [] # split_sep cs
      else (case split_sep cs of
              [] \<Rightarrow> [[c]]
            | e # es \<Rightarrow> (c # e) # es))"

fun join_sep :: "string list \<Rightarrow> string" where
  "join_sep [] = []"
| "join_sep [e] = e"
| "join_sep (e # e' # es) = e @ [Separator] @ join_sep (e' # es)"

text \<open>
  \<open>filepath.Clean\<close> by the rules of its documentation, applied element by element
  from left to right: an empty element (doubled separator) and \<open>.\<close> are dropped; \<open>..\<close>
  cancels the element before it, is dropped at the start of a rooted path, and is kept
  at the start of a path that is not rooted; an empty result is \<open>.\<close>. The elements kept
  so far are held last one first.
\<close>

definition rooted :: "string \<Rightarrow> bool" where
  "rooted p = (case p of [] \<Rightarrow> False | c # _ \<Rightarrow> c = Separator)"

fun clean_elem :: "bool \<Rightarrow> string list \<Rightarrow> string \<Rightarrow> string list" where
  "clean_elem r kept e =
     (if e = [] \<or> e = ''.'' then kept
      else if e = ''..'' then
        (case kept of
           [] \<Rightarrow> (if r then [] else [''..''])
         | k # ks \<Rightarrow> (if k = ''..'' then ''..'' # kept else ks))
      else e # kept)"

definition clean_elems :: "string \<Rightarrow> string list" where
  "clean_elems p = rev (foldl (clean_elem (rooted p)) [] (split_sep p))"

definition render :: "bool \<Rightarrow> string list \<Rightarrow> string" where
  "render r es =
     (if r then Separator # join_sep es
      else if es = [] then ''.''
      else join_sep es)"

definition Clean :: "string \<Rightarrow> string" where
  "Clean p = render (rooted p) (clean_elems p)"

text \<open>
  \<open>filepath.Join\<close>: leading empty elements are ignored, the rest is joined with the
  separator and cleaned; no non-empty element gives the empty string.
\<close>

definition Join :: "string list \<Rightarrow> string" where
  "Join elems =
     (case dropWhile (\<lambda>e. e = []) elems of
        [] \<Rightarrow> []
      | es \<Rightarrow> Clean (join_sep es))"

section \<open>The part of the disk that a traversal reads\<close>

text \<open>
  \<open>StreamFiles\<close> only reads the disk, so what it can observe is the finite tree that
  hangs at the path it is given. A node is what \<open>os.Lstat\<close> and a directory listing
  report about one name:
  \<^item> \<open>File\<close>, a regular file;
  \<^item> \<open>Special\<close>, an entry that is neither a directory, nor a regular file, nor a
    symbolic link (a device, a socket, a named pipe);
  \<^item> \<open>Symlink\<close>, a symbolic link: \<open>os.Lstat\<close> describes the link itself, which is not
    a directory, whatever it points to, and \<open>filepath.Walk\<close> does not follow it;
  \<^item> \<open>Dir\<close>, a directory with its entries in the order \<open>readDirNames\<close> returns them
    (sorted by name);
  \<^item> \<open>DirErr\<close>, a directory whose listing fails with the errno;
  \<^item> \<open>NoStat\<close>, a name for which \<open>os.Lstat\<close> fails with the errno: \<open>ENOENT\<close> when
    nothing has the name, \<open>ENOTDIR\<close> when a component before the last one is not a
    directory (\<open>f.txt/sub\<close> below a regular file \<open>f.txt\<close>), \<open>EACCES\<close> when a directory on
    the way may not be searched.
\<close>

datatype node =
    File
  | Special
  | Symlink
  | Dir "(string \<times> node) list"
  | DirErr errno
  | NoStat errno

fun Lstat :: "node \<Rightarrow> errno + fileinfo" where
  "Lstat File = Inr (FileInfo False)"
| "Lstat Special = Inr (FileInfo False)"
| "Lstat Symlink = Inr (FileInfo False)"
| "Lstat (Dir entries) = Inr (FileInfo True)"
| "Lstat (DirErr e) = Inr (FileInfo True)"
| "Lstat (NoStat e) = Inl e"

text \<open>
  The error result of \<open>os.Stat\<close>. \<open>StreamFiles\<close> applies \<open>os.Stat\<close> to the root only, and
  only to ask whether the root is missing. \<open>os.Stat\<close> follows a symbolic link where
  \<open>os.Lstat\<close> does not: a root that is a link to a missing target is missing for
  \<open>os.Stat\<close> and so is the node \<open>NoStat ENOENT\<close> (the walk, and with it \<open>os.Lstat\<close>, is
  never reached); a root that is any other link is \<open>Symlink\<close>.
\<close>

definition Stat_err :: "node \<Rightarrow> error option" where
  "Stat_err n = (case Lstat n of Inl e \<Rightarrow> Some (PathError e) | Inr info \<Rightarrow> None)"

section \<open>filepath.Walk\<close>

type_synonym 'st walkfunc =
  "string \<Rightarrow> fileinfo option \<Rightarrow> error option \<Rightarrow> 'st \<Rightarrow> (panic \<times> 'st) + (error option \<times> 'st)"

text \<open>
  \<open>walk\<close> is the recursive helper of \<open>path/filepath\<close>: a non-directory is handed to
  the callback; for a directory the names are read first, the callback gets the
  directory together with the listing error, and any error (of the listing or of the
  callback) ends the visit of this directory with the callback's result; otherwise
  each name is joined to the path, looked up, and visited. \<open>walk_entries\<close> is the loop
  over the names: a name whose \<open>Lstat\<close> fails is reported to the callback, any other
  is walked. (\<open>walk\<close> is entered only for a name whose \<open>Lstat\<close> succeeded; its
  equation for \<open>NoStat\<close> is there to make it total.)
\<close>

fun walk :: "'st walkfunc \<Rightarrow> string \<Rightarrow> node \<Rightarrow> 'st \<Rightarrow> (panic \<times> 'st) + (error option \<times> 'st)"
  and walk_entries ::
    "'st walkfunc \<Rightarrow> string \<Rightarrow> (string \<times> node) list \<Rightarrow> 'st \<Rightarrow> (panic \<times> 'st) + (error option \<times> 'st)"
where
  "walk walkFn path File s = walkFn path (Some (FileInfo False)) None s"
| "walk walkFn path Special s = walkFn path (Some (FileInfo False)) None s"
| "walk walkFn path Symlink s = walkFn path (Some (FileInfo False)) None s"
| "walk walkFn path (NoStat e) s = walkFn path None (Some (PathError e)) s"
| "walk walkFn path (DirErr e) s = walkFn path (Some (FileInfo True)) (Some (PathError e)) s"
| "walk walkFn path (Dir entries) s =
     (case walkFn path (Some (FileInfo True)) None s of
        Inl p \<Rightarrow> Inl p
      | Inr (err1, s') \<Rightarrow>
          if err1 \<noteq> None then Inr (err1, s')
          else walk_entries walkFn path entries s')"
| "walk_entries walkFn path [] s = Inr (None, s)"
| "walk_entries walkFn path ((name, child) # rest) s =
     (let filename = Join [path, name] in
      case Lstat child of
        Inl e \<Rightarrow>
          (case walkFn filename None (Some (PathError e)) s of
             Inl p \<Rightarrow> Inl p
           | Inr (err, s') \<Rightarrow>
               if err \<noteq> None \<and> err \<noteq> Some SkipDir then Inr (err, s')
               else walk_entries walkFn path rest s')
      | Inr fileInfo \<Rightarrow>
          (case walk walkFn filename child s of
             Inl p \<Rightarrow> Inl p
           | Inr (err, s') \<Rightarrow>
               if err \<noteq> None \<and> (\<not> IsDir fileInfo \<or> err \<noteq> Some SkipDir) then Inr (err, s')
               else walk_entries walkFn path rest s'))"

text \<open>
  \<open>filepath.Walk\<close>: a root whose \<open>Lstat\<close> fails is reported to the callback, any other
  root is walked; \<open>SkipDir\<close> as the final result becomes \<open>nil\<close>.
\<close>

definition Walk :: "string \<Rightarrow> 'st walkfunc \<Rightarrow> node \<Rightarrow> 'st \<Rightarrow> (panic \<times> 'st) + (error option \<times> 'st)" where
  "Walk root walkFn tree s =
     (case (case Lstat tree of
              Inl e \<Rightarrow> walkFn root None (Some (PathError e)) s
            | Inr info \<Rightarrow> walk walkFn root tree s) of
        Inl p \<Rightarrow> Inl p
      | Inr (err, s') \<Rightarrow> if err = Some SkipDir then Inr (None, s') else Inr (err, s'))"

section \<open>Package fs: the filters and StreamFiles\<close>

definition MarkdownOnly :: "string \<Rightarrow> bool" where
  "MarkdownOnly file = (Ext file = ''.md'')"

definition NoUnderscores :: "string \<Rightarrow> bool" where
  "NoUnderscores file = (let filename = Base file in \<not> HasPrefix filename ''_'')"

text \<open>
  The state \<open>StreamFiles\<close> works on: the values received from the \<open>files\<close> channel so
  far (a consumer drains the channel, so a send does not block for ever), how often the
  channel has been closed, and the package variable \<open>ErrStreaming\<close>. Sending on a closed
  channel and closing a closed channel panic.
\<close>

record state =
  sent :: "string list"
  closes :: nat
  ErrStreaming :: "error option"

definition send :: "string \<Rightarrow> state \<Rightarrow> (panic \<times> state) + state" where
  "send v s = (if closes s > 0 then Inl (SendOnClosedChannel, s) else Inr (s\<lparr>sent := sent s @ [v]\<rparr>))"

definition close :: "state \<Rightarrow> (panic \<times> state) + state" where
  "close s = (if closes s > 0 then Inl (CloseOfClosedChannel, s) else Inr (s\<lparr>closes := Suc (closes s)\<rparr>))"

text \<open>The loop over the filters: the first filter that rejects the file ends it.\<close>

fun filters_pass :: "(string \<Rightarrow> bool) list \<Rightarrow> string \<Rightarrow> bool" where
  "filters_pass [] file = True"
| "filters_pass (flt # filters) file = (if \<not> flt file then False else filters_pass filters file)"

text \<open>
  The function literal handed to \<open>filepath.Walk\<close>. The slice \<open>file[len(path):]\<close> panics
  when \<open>file\<close> is shorter than \<open>path\<close>; \<open>info.IsDir()\<close> panics on a nil \<open>info\<close>.
\<close>

definition streamFn :: "string \<Rightarrow> (string \<Rightarrow> bool) list \<Rightarrow> state walkfunc" where
  "streamFn path filters file info err s =
     (if err \<noteq> None then Inr (err, s)
      else case info of
        None \<Rightarrow> Inl (NilDereference, s)
      | Some i \<Rightarrow>
          if IsDir i then Inr (None, s)
          else if \<not> filters_pass filters file then Inr (None, s)
          else if path = ''.'' then
            (case send file s of Inl p \<Rightarrow> Inl p | Inr s' \<Rightarrow> Inr (None, s'))
          else if length path \<le> length file then
            (case send (drop (length path) file) s of Inl p \<Rightarrow> Inl p | Inr s' \<Rightarrow> Inr (None, s'))
          else Inl (SliceBoundsOutOfRange, s))"

text \<open>\<open>tree\<close> is what the disk holds at \<open>path\<close>.\<close>

definition StreamFiles ::
  "string \<Rightarrow> (string \<Rightarrow> bool) list \<Rightarrow> node \<Rightarrow> state \<Rightarrow> (panic \<times> state) + (error option \<times> state)" where
  "StreamFiles path filters tree s =
     (if IsNotExist (Stat_err tree) then
        (case close s of Inl p \<Rightarrow> Inl p | Inr s' \<Rightarrow> Inr (None, s'))
      else
        case Walk path (streamFn path filters) tree s of
          Inl p \<Rightarrow> Inl p
        | Inr (err, s1) \<Rightarrow>
            let s2 = s1\<lparr>ErrStreaming := err\<rparr> in
            (case close s2 of Inl p \<Rightarrow> Inl p | Inr s3 \<Rightarrow> Inr (ErrStreaming s3, s3)))"

section \<open>The entries of a tree\<close>

text \<open>
  The entries of the tree at \<open>path\<close> that are not directories (regular files,
  special files and symbolic links), each under the name the traversal gives it: the
  path itself for the root, and for an entry of a directory the directory's path
  joined with the entry's name. In the order of the traversal.
\<close>

fun non_directories :: "string \<Rightarrow> node \<Rightarrow> string list"
  and non_directories_entries :: "string \<Rightarrow> (string \<times> node) list \<Rightarrow> string list"
where
  "non_directories path File = [path]"
| "non_directories path Special = [path]"
| "non_directories path Symlink = [path]"
| "non_directories path (NoStat e) = []"
| "non_directories path (DirErr e) = []"
| "non_directories path (Dir entries) = non_directories_entries path entries"
| "non_directories_entries path [] = []"
| "non_directories_entries path ((name, child) # rest) =
     non_directories (Join [path, name]) child @ non_directories_entries path rest"

text \<open>
  The set the specification speaks of, the regular files of the tree at \<open>path\<close>:
  of the entries that are not directories, the \<open>File\<close> nodes only, under the same
  names and in the same order.
\<close>

fun regular_files :: "string \<Rightarrow> node \<Rightarrow> string list"
  and regular_files_entries :: "string \<Rightarrow> (string \<times> node) list \<Rightarrow> string list"
where
  "regular_files path File = [path]"
| "regular_files path Special = []"
| "regular_files path Symlink = []"
| "regular_files path (NoStat e) = []"
| "regular_files path (DirErr e) = []"
| "regular_files path (Dir entries) = regular_files_entries path entries"
| "regular_files_entries path [] = []"
| "regular_files_entries path ((name, child) # rest) =
     regular_files (Join [path, name]) child @ regular_files_entries path rest"

text \<open>
  The relative form of a traversal path: the path itself under the root \<open>.\<close>, and
  otherwise the path without its first \<open>len(root)\<close> bytes.
\<close>

definition relative :: "string \<Rightarrow> string \<Rightarrow> string" where
  "relative root file = (if root = ''.'' then file else drop (length root) file)"

section \<open>The disk that package core changes\<close>

text \<open>
  \<open>CreateProject\<close> and \<open>CreateTheme\<close> remove and create entries, so the disk is a
  state: the entries, each under its key, the names that lead to it from the root
  directory; the current directory of the process; and the entries that the operating
  system refuses to unlink (\<open>EPERM\<close>). The root directory has the empty key and is
  always there. An entry is a regular file with its content or a directory; this disk
  has no symbolic links, so \<open>os.Stat\<close> and \<open>os.Lstat\<close> agree on it.
\<close>

type_synonym key = "string list"

datatype entry = RegularFile string | Directory

record disk =
  entries :: "(key \<times> entry) list"
  cwd :: key
  undeletable :: "key list"

definition lookup :: "disk \<Rightarrow> key \<Rightarrow> entry option" where
  "lookup d k = (if k = [] then Some Directory else map_of (entries d) k)"

text \<open>\<open>m[k] = v\<close> on an association list without repeated keys.\<close>

fun assign :: "'k \<Rightarrow> 'v \<Rightarrow> ('k \<times> 'v) list \<Rightarrow> ('k \<times> 'v) list" where
  "assign k v [] = [(k, v)]"
| "assign k v ((k', v') # m) = (if k' = k then (k, v) # m else (k', v') # assign k v m)"

definition put :: "key \<Rightarrow> entry \<Rightarrow> disk \<Rightarrow> disk" where
  "put k e d = d\<lparr>entries := assign k e (entries d)\<rparr>"

text \<open>
  \<open>at_or_below k k'\<close>: the entry \<open>k'\<close> is \<open>k\<close> itself or lies below it.
\<close>

definition at_or_below :: "key \<Rightarrow> key \<Rightarrow> bool" where
  "at_or_below k k' = (take (length k) k' = k)"

subsection \<open>How the operating system resolves a path\<close>

text \<open>
  A path is resolved component by component, from the root directory when it begins
  with a separator and from the current directory otherwise: the directory reached so
  far must be there (\<open>ENOENT\<close>) and must be a directory (\<open>ENOTDIR\<close>); an empty component
  and \<open>.\<close> stay in it, \<open>..\<close> goes to the directory that holds it (the root holds
  itself), a name goes to the entry of that name. \<open>locate\<close> is the key the whole path
  leads to; the entry under that key need not exist. The empty path names nothing.
\<close>

fun step :: "disk \<Rightarrow> errno + key \<Rightarrow> string \<Rightarrow> errno + key" where
  "step d (Inl e) c = Inl e"
| "step d (Inr k) c =
     (case lookup d k of
        None \<Rightarrow> Inl ENOENT
      | Some (RegularFile content) \<Rightarrow> Inl ENOTDIR
      | Some Directory \<Rightarrow>
          Inr (if c = [] \<or> c = ''.'' then k
               else if c = ''..'' then butlast k
               else k @ [c]))"

definition locate :: "disk \<Rightarrow> string \<Rightarrow> errno + key" where
  "locate d path =
     (if path = [] then Inl ENOENT
      else foldl (step d) (Inr (if rooted path then [] else cwd d)) (split_sep path))"

text \<open>\<open>resolve\<close>: the key of the entry that the path names, which is there.\<close>

definition resolve :: "disk \<Rightarrow> string \<Rightarrow> errno + key" where
  "resolve d path =
     (case locate d path of
        Inl e \<Rightarrow> Inl e
      | Inr k \<Rightarrow> (case lookup d k of None \<Rightarrow> Inl ENOENT | Some e \<Rightarrow> Inr k))"

text \<open>
  The path without its trailing separators (one byte is always left), and the last
  component of what remains: the name that an operation on the path creates or
  unlinks.
\<close>

definition strip_trailing :: "string \<Rightarrow> string" where
  "strip_trailing path =
     (let stripped = rev (dropWhile (\<lambda>c. c = Separator) (rev path))
      in if stripped = [] then take 1 path else stripped)"

definition final_elem :: "string \<Rightarrow> string" where
  "final_elem path = last (split_sep (strip_trailing path))"

definition is_name :: "string \<Rightarrow> bool" where
  "is_name c = (c \<noteq> [] \<and> c \<noteq> ''.'' \<and> c \<noteq> ''..'')"

subsection \<open>Reading\<close>

text \<open>\<open>os.Stat\<close> and \<open>os.Lstat\<close>.\<close>

definition os_Stat :: "string \<Rightarrow> disk \<Rightarrow> errno + fileinfo" where
  "os_Stat name d =
     (case resolve d name of
        Inl e \<Rightarrow> Inl e
      | Inr k \<Rightarrow> Inr (FileInfo (lookup d k = Some Directory)))"

definition os_Lstat :: "string \<Rightarrow> disk \<Rightarrow> errno + fileinfo" where
  "os_Lstat name d = os_Stat name d"

definition err_of :: "errno + 'a \<Rightarrow> error option" where
  "err_of r = (case r of Inl e \<Rightarrow> Some (PathError e) | Inr x \<Rightarrow> None)"

text \<open>
  \<open>readDirNames\<close> of \<open>path/filepath\<close>: opens the directory, reads the names of its
  entries and sorts them. A regular file can be opened, but has no names to read.
\<close>

definition child_names :: "key \<Rightarrow> disk \<Rightarrow> string list" where
  "child_names k d =
     map (\<lambda>(k', e). last k') (filter (\<lambda>(k', e). k' \<noteq> [] \<and> butlast k' = k) (entries d))"

definition readDirNames :: "string \<Rightarrow> disk \<Rightarrow> errno + string list" where
  "readDirNames dirname d =
     (case resolve d dirname of
        Inl e \<Rightarrow> Inl e
      | Inr k \<Rightarrow>
          if lookup d k = Some Directory then Inr (sort (child_names k d))
          else Inl ENOTDIR)"

subsection \<open>Removing\<close>

text \<open>
  \<open>os.Remove\<close> unlinks one file or one empty directory (\<open>unlink\<close>, then \<open>rmdir\<close>). A
  path whose last component is \<open>.\<close> is refused with \<open>EINVAL\<close> and one whose last
  component is \<open>..\<close> with \<open>ENOTEMPTY\<close>; the root directory is busy.
\<close>

definition os_Remove :: "string \<Rightarrow> disk \<Rightarrow> error option \<times> disk" where
  "os_Remove name d =
     (case resolve d name of
        Inl e \<Rightarrow> (Some (PathError e), d)
      | Inr k \<Rightarrow>
          if final_elem name = ''.'' then (Some (PathError EINVAL), d)
          else if final_elem name = ''..'' then (Some (PathError ENOTEMPTY), d)
          else if k = [] then (Some (PathError EBUSY), d)
          else if k \<in> set (undeletable d) then (Some (PathError EPERM), d)
          else if lookup d k = Some Directory \<and> child_names k d \<noteq> []
          then (Some (PathError ENOTEMPTY), d)
          else (None, d\<lparr>entries := filter (\<lambda>(k', e'). k' \<noteq> k) (entries d)\<rparr>))"

text \<open>
  \<open>os.RemoveAll\<close> (the implementation for systems with \<open>unlinkat\<close>). It returns \<open>nil\<close>
  for the empty path and refuses a path that ends in a \<open>.\<close> element (\<open>EINVAL\<close>). It
  tries \<open>os.Remove\<close> and is done when that succeeds or finds nothing. Otherwise it
  splits the path into a directory and a base (\<open>splitPath\<close>), opens the directory (a
  missing one is success) and removes the base from it (\<open>removeAllFrom\<close>).
\<close>

definition endsWithDot :: "string \<Rightarrow> bool" where
  "endsWithDot path =
     (if path = [] then False
      else if path = ''.'' then True
      else length path \<ge> 2 \<and> last path = CHR ''.'' \<and> last (butlast path) = Separator)"

text \<open>
  \<open>splitPath\<close>: all but one leading separator and all trailing separators are dropped;
  the base is what follows the last separator left, the directory what precedes it
  (the separator itself when it is the first byte); without a separator the
  directory is \<open>.\<close>.
\<close>

definition splitPath :: "string \<Rightarrow> string \<times> string" where
  "splitPath path =
     (let p1 = (if rooted path then Separator # dropWhile (\<lambda>c. c = Separator) path else path);
          p2 = strip_trailing p1
      in if Separator \<in> set (butlast p2) then
           (let upto = rev (dropWhile (\<lambda>c. c \<noteq> Separator) (rev (butlast p2)))
            in (if length upto = 1 then upto else butlast upto, drop (length upto) p2))
         else (''.'', p2))"

text \<open>
  \<open>removeAllFrom\<close> works on an open directory and a base. The base names the root
  directory (a lone separator), the directory itself (\<open>.\<close>), the directory that holds
  it (\<open>..\<close>), or the entry of that name. A missing entry is success. Otherwise every
  entry below it is unlinked, deepest first; an entry that the system refuses to
  unlink stays, and so do the directories above it; last the entry itself is
  unlinked, which fails for \<open>.\<close> (\<open>EINVAL\<close>), for \<open>..\<close> (\<open>ENOTEMPTY\<close>) and for the root
  (\<open>EBUSY\<close>). The error is that of the first entry that could not be unlinked.
  \<open>blocked d k\<close>: the entry \<open>k\<close> stays, because it or an entry below it cannot be
  unlinked.
\<close>

definition blocked :: "disk \<Rightarrow> key \<Rightarrow> bool" where
  "blocked d k = (\<exists>u \<in> set (undeletable d). lookup d u \<noteq> None \<and> at_or_below k u)"

definition removeAllFrom :: "key \<Rightarrow> string \<Rightarrow> disk \<Rightarrow> error option \<times> disk" where
  "removeAllFrom parent base d =
     (if lookup d parent \<noteq> Some Directory then (Some (PathError ENOTDIR), d)
      else
        let k = (if base = [Separator] then []
                 else if base = ''.'' then parent
                 else if base = ''..'' then butlast parent
                 else parent @ [base])
        in if lookup d k = None then (None, d)
           else
             let err =
                   (if \<exists>(k', e) \<in> set (entries d). k' \<noteq> k \<and> at_or_below k k' \<and> blocked d k'
                    then Some (PathError EPERM)
                    else if base = ''.'' then Some (PathError EINVAL)
                    else if base = ''..'' then Some (PathError ENOTEMPTY)
                    else if k = [] then Some (PathError EBUSY)
                    else if k \<in> set (undeletable d) then Some (PathError EPERM)
                    else None)
             in (err, d\<lparr>entries := filter (\<lambda>(k', e). \<not> at_or_below k k' \<or> blocked d k'
                                                     \<or> (k' = k \<and> err \<noteq> None)) (entries d)\<rparr>))"

definition os_RemoveAll :: "string \<Rightarrow> disk \<Rightarrow> error option \<times> disk" where
  "os_RemoveAll path d =
     (if path = [] then (None, d)
      else if endsWithDot path then (Some (PathError EINVAL), d)
      else
        case os_Remove path d of
          (None, d') \<Rightarrow> (None, d')
        | (Some err, d') \<Rightarrow>
            if IsNotExist (Some err) then (None, d)
            else
              (case splitPath path of
                 (parentDir, base) \<Rightarrow>
                   (case resolve d parentDir of
                      Inl e \<Rightarrow> if e = ENOENT then (None, d) else (Some (PathError e), d)
                    | Inr parent \<Rightarrow> removeAllFrom parent base d)))"

subsection \<open>Creating\<close>

text \<open>
  \<open>os.Mkdir\<close>: the directory that is to hold the new one must be there; trailing
  separators do not count; an existing entry is \<open>EEXIST\<close>.
\<close>

definition os_Mkdir :: "string \<Rightarrow> disk \<Rightarrow> error option \<times> disk" where
  "os_Mkdir name d =
     (case locate d (strip_trailing name) of
        Inl e \<Rightarrow> (Some (PathError e), d)
      | Inr k \<Rightarrow>
          if lookup d k \<noteq> None then (Some (PathError EEXIST), d)
          else if is_name (final_elem name) then (None, put k Directory d)
          else (Some (PathError ENOENT), d))"

text \<open>
  \<open>os.MkdirAll\<close>: an existing directory is success, an existing file is \<open>ENOTDIR\<close>.
  Otherwise the trailing separators and the last element are cut off the path; if
  more than the first byte is left before them, that part (\<open>path[:j-1]\<close>) is made
  first; then \<open>os.Mkdir\<close> makes the directory itself, and when that fails, a directory
  that is there all the same is success. \<open>parent_end\<close> is \<open>path[:j]\<close>.
\<close>

definition parent_end :: "string \<Rightarrow> string" where
  "parent_end path =
     rev (dropWhile (\<lambda>c. c \<noteq> Separator) (dropWhile (\<lambda>c. c = Separator) (rev path)))"

function os_MkdirAll :: "string \<Rightarrow> disk \<Rightarrow> error option \<times> disk" where
  "os_MkdirAll path d =
     (case os_Stat path d of
        Inr dir \<Rightarrow> if IsDir dir then (None, d) else (Some (PathError ENOTDIR), d)
      | Inl e \<Rightarrow>
          (case (if length (parent_end path) > 1
                 then os_MkdirAll (butlast (parent_end path)) d
                 else (None, d)) of
             (Some err, d') \<Rightarrow> (Some err, d')
           | (None, d') \<Rightarrow>
               (case os_Mkdir path d' of
                  (None, d'') \<Rightarrow> (None, d'')
                | (Some err, d'') \<Rightarrow>
                    (case os_Lstat path d'' of
                       Inr dir \<Rightarrow> if IsDir dir then (None, d'') else (Some err, d'')
                     | Inl e1 \<Rightarrow> (Some err, d'')))))"
  by pat_completeness auto

termination
proof (relation "measure (\<lambda>(path, d). length path)")
  show "wf (measure (\<lambda>(path, d). length path))" by simp
next
  fix path :: string and d :: disk and e :: errno
  assume "os_Stat path d = Inl e" and long: "1 < length (parent_end path)"
  have "length (dropWhile (\<lambda>c. c \<noteq> Separator) (dropWhile (\<lambda>c. c = Separator) (rev path)))
          \<le> length (dropWhile (\<lambda>c. c = Separator) (rev path))"
    by (rule length_dropWhile_le)
  also have "\<dots> \<le> length (rev path)"
    by (rule length_dropWhile_le)
  finally have "length (parent_end path) \<le> length path"
    by (simp add: parent_end_def)
  with long show "((butlast (parent_end path), d), (path, d)) \<in> measure (\<lambda>(path, d). length path)"
    by simp
qed

declare os_MkdirAll.simps [simp del]

text \<open>
  \<open>ioutil.WriteFile\<close> opens the file for writing, creating or truncating it, and
  writes the data. The directory that is to hold the file must be there; a path that
  names a directory, or ends in a separator, cannot be opened for writing.
\<close>

definition ioutil_WriteFile :: "string \<Rightarrow> string \<Rightarrow> disk \<Rightarrow> error option \<times> disk" where
  "ioutil_WriteFile filename data d =
     (if filename \<noteq> [] \<and> last filename = Separator then
        (case locate d (strip_trailing filename) of
           Inl e \<Rightarrow> (Some (PathError e), d)
         | Inr k \<Rightarrow>
             (case lookup d k of
                Some (RegularFile old) \<Rightarrow> (Some (PathError ENOTDIR), d)
              | _ \<Rightarrow> (Some (PathError EISDIR), d)))
      else
        case locate d filename of
          Inl e \<Rightarrow> (Some (PathError e), d)
        | Inr k \<Rightarrow>
            (case lookup d k of
               Some Directory \<Rightarrow> (Some (PathError EISDIR), d)
             | Some (RegularFile old) \<Rightarrow> (None, put k (RegularFile data) d)
             | None \<Rightarrow>
                 if is_name (final_elem filename) then (None, put k (RegularFile data) d)
                 else (Some (PathError ENOENT), d)))"

section \<open>filepath.Walk on a disk that the callback changes\<close>

text \<open>
  The same traversal as above, reading the disk as it is at each step: the names of
  a directory are read before the callback sees the directory, and each name is
  looked up only when its turn comes. A callback may create entries, so the traversal
  need not end: \<open>None\<close> is the run that does not return. The job \<open>Inl (path, info)\<close>
  is a call of \<open>walk\<close>, the job \<open>Inr (path, names)\<close> is the rest of the loop over the
  names of the directory \<open>path\<close>.
\<close>

partial_function (option) walk_disk ::
  "disk walkfunc \<Rightarrow> (string \<times> fileinfo) + (string \<times> string list) \<Rightarrow> disk
     \<Rightarrow> ((panic \<times> disk) + (error option \<times> disk)) option"
where
  "walk_disk walkFn job d =
     (case job of
        Inl (path, info) \<Rightarrow>
          if \<not> IsDir info then Some (walkFn path (Some info) None d)
          else
            (case walkFn path (Some info) (err_of (readDirNames path d)) d of
               Inl p \<Rightarrow> Some (Inl p)
             | Inr (err1, d') \<Rightarrow>
                 (case readDirNames path d of
                    Inl e \<Rightarrow> Some (Inr (err1, d'))
                  | Inr names \<Rightarrow>
                      if err1 \<noteq> None then Some (Inr (err1, d'))
                      else walk_disk walkFn (Inr (path, names)) d'))
      | Inr (path, []) \<Rightarrow> Some (Inr (None, d))
      | Inr (path, name # rest) \<Rightarrow>
          (let filename = Join [path, name] in
           case os_Lstat filename d of
             Inl e \<Rightarrow>
               (case walkFn filename None (Some (PathError e)) d of
                  Inl p \<Rightarrow> Some (Inl p)
                | Inr (err, d') \<Rightarrow>
                    if err \<noteq> None \<and> err \<noteq> Some SkipDir then Some (Inr (err, d'))
                    else walk_disk walkFn (Inr (path, rest)) d')
           | Inr fileInfo \<Rightarrow>
               Option.bind (walk_disk walkFn (Inl (filename, fileInfo)) d)
                 (\<lambda>r. case r of
                    Inl p \<Rightarrow> Some (Inl p)
                  | Inr (err, d') \<Rightarrow>
                      if err \<noteq> None \<and> (\<not> IsDir fileInfo \<or> err \<noteq> Some SkipDir)
                      then Some (Inr (err, d'))
                      else walk_disk walkFn (Inr (path, rest)) d')))"

declare walk_disk.simps [code]

definition Walk_disk :: "string \<Rightarrow> disk walkfunc \<Rightarrow> disk \<Rightarrow> ((panic \<times> disk) + (error option \<times> disk)) option" where
  "Walk_disk root walkFn d =
     (case (case os_Lstat root d of
              Inl e \<Rightarrow> Some (walkFn root None (Some (PathError e)) d)
            | Inr info \<Rightarrow> walk_disk walkFn (Inl (root, info)) d) of
        None \<Rightarrow> None
      | Some (Inl p) \<Rightarrow> Some (Inl p)
      | Some (Inr (err, d')) \<Rightarrow>
          if err = Some SkipDir then Some (Inr (None, d')) else Some (Inr (err, d')))"

section \<open>What package core takes from other packages\<close>

text \<open>
  The constants of package \<open>config\<close> and the default file contents are not among the
  sources; they are parameters of the model.
\<close>

record config =
  ContentDir :: string
  DefaultTheme :: string
  ListPageTpl :: string
  PageTpl :: string
  ThemesDir :: string
  JsDirName :: string
  defaultConfig :: string
  defaultGitignore :: string
  defaultTpl :: string
  defaultCss :: string
  defaultThemeConfig :: string

text \<open>
  Modelled from the spec: \<open>fs.IsSafeToRemove\<close> is not among the sources. The
  specification: "Safe to remove" is false whenever the target exists and overwrite
  was not explicitly requested; true if the target does not exist, or overwrite was
  requested.
\<close>

definition IsSafeToRemove :: "disk \<Rightarrow> string \<Rightarrow> bool \<Rightarrow> bool" where
  "IsSafeToRemove d path force = (force \<or> IsNotExist (err_of (os_Stat path d)))"

text \<open>
  Package \<open>theme\<close> is not among the sources either. The specification names what
  core needs of it: \<open>Dir\<close>, \<open>TemplateDir\<close>, \<open>CssDir\<close>, \<open>JsDir\<close> and \<open>Exists\<close>. The
  name of the directory that holds the themes and the name of a theme's script
  directory are not given; they are the parameters \<open>ThemesDir\<close> and \<open>JsDirName\<close>.
\<close>

text \<open>
  Modelled from the spec: \<open>theme.Dir\<close> is missing. A theme is "a named subdirectory"
  "inside an existing project"; the theme's directory is "under the project".
\<close>

definition theme_Dir :: "config \<Rightarrow> string \<Rightarrow> string \<Rightarrow> string" where
  "theme_Dir c path theme = Join [path, ThemesDir c, theme]"

text \<open>
  Modelled from the spec: \<open>theme.TemplateDir\<close> is missing. The templates of a theme
  are the files \<open><theme-dir>/templates/<name>\<close>.
\<close>

definition theme_TemplateDir :: "config \<Rightarrow> string \<Rightarrow> string \<Rightarrow> string" where
  "theme_TemplateDir c path theme = Join [theme_Dir c path theme, ''templates'']"

text \<open>
  Modelled from the spec: \<open>theme.CssDir\<close> is missing. The stylesheet of a theme is
  the file \<open><theme-dir>/css/style.css\<close>.
\<close>

definition theme_CssDir :: "config \<Rightarrow> string \<Rightarrow> string \<Rightarrow> string" where
  "theme_CssDir c path theme = Join [theme_Dir c path theme, ''css'']"

text \<open>
  Modelled from the spec: \<open>theme.JsDir\<close> is missing. A theme has a script directory
  next to its template and stylesheet directories.
\<close>

definition theme_JsDir :: "config \<Rightarrow> string \<Rightarrow> string \<Rightarrow> string" where
  "theme_JsDir c path theme = Join [theme_Dir c path theme, JsDirName c]"

text \<open>
  Modelled from the spec: \<open>theme.Exists\<close> is missing. A theme exists "if the named
  theme's directory already exists under the project".
\<close>

definition theme_Exists :: "config \<Rightarrow> disk \<Rightarrow> string \<Rightarrow> string \<Rightarrow> bool" where
  "theme_Exists c d path name = (\<not> IsNotExist (err_of (os_Stat (theme_Dir c path name) d)))"

section \<open>Package core: CreateProject and CreateTheme\<close>

definition ErrProjectExists :: error where
  "ErrProjectExists = ErrorString ''project already exists, use --overwrite to remove it''"

definition ErrProjectNotExists :: error where
  "ErrProjectNotExists = ErrorString ''project doesn't exist yet, create it first''"

definition ErrThemeExists :: error where
  "ErrThemeExists = ErrorString ''theme already exists, remove it first''"

record CreateProjectOptions =
  Overwrite :: bool

record CreateThemeOptions =
  Project :: string

text \<open>
  A map literal assigns its elements one after the other. The order in which
  \<open>range\<close> visits the keys of a map is not fixed by the language: it is the
  parameter \<open>rank\<close>, and the keys are visited by ascending rank.
\<close>

definition map_literal :: "(string \<times> string) list \<Rightarrow> (string \<times> string) list" where
  "map_literal elems = foldl (\<lambda>m (k, v). assign k v m) [] elems"

fun write_each :: "(string \<times> string) list \<Rightarrow> disk \<Rightarrow> error option \<times> disk" where
  "write_each [] d = (None, d)"
| "write_each ((path, content) # rest) d =
     (case ioutil_WriteFile path content d of
        (Some err, d') \<Rightarrow> (Some err, d')
      | (None, d') \<Rightarrow> write_each rest d')"

definition createFiles ::
  "(string \<Rightarrow> nat) \<Rightarrow> (string \<times> string) list \<Rightarrow> disk \<Rightarrow> error option \<times> disk" where
  "createFiles rank files d = write_each (sort_key (\<lambda>(path, content). rank path) files) d"

text \<open>The loop \<open>for _, dir := range dirs\<close> around \<open>os.MkdirAll\<close>.\<close>

fun mkdir_each :: "string list \<Rightarrow> disk \<Rightarrow> error option \<times> disk" where
  "mkdir_each [] d = (None, d)"
| "mkdir_each (dir # dirs) d =
     (case os_MkdirAll dir d of
        (Some err, d') \<Rightarrow> (Some err, d')
      | (None, d') \<Rightarrow> mkdir_each dirs d')"

text \<open>
  The function literal that \<open>CreateProject\<close> hands to \<open>filepath.Walk\<close>. \<open>info.IsDir()\<close>
  panics on a nil \<open>info\<close>.
\<close>

definition cleanFn :: "disk walkfunc" where
  "cleanFn path info err d =
     (if IsNotExist err then Inr (None, d)
      else if path \<noteq> ''.'' then
        (case info of
           None \<Rightarrow> Inl (NilDereference, d)
         | Some i \<Rightarrow> if IsDir i then Inr (os_RemoveAll path d) else Inr (os_Remove path d))
      else Inr (None, d))"

text \<open>What \<open>CreateProject\<close> does once the old content is out of the way.\<close>

definition project_layout ::
  "config \<Rightarrow> (string \<Rightarrow> nat) \<Rightarrow> string \<Rightarrow> disk
     \<Rightarrow> error option \<times> disk" where
  "project_layout c rank path d =
     (let dirs = [Join [path, ContentDir c],
                  theme_TemplateDir c path (DefaultTheme c),
                  theme_CssDir c path (DefaultTheme c)]
      in case mkdir_each dirs d of
           (Some err, d') \<Rightarrow> (Some err, d')
         | (None, d') \<Rightarrow>
             (let files = map_literal
                    [(Join [path, ''verless.yml''], defaultConfig c),
                     (Join [path, ''.gitignore''], defaultGitignore c),
                     (Join [theme_TemplateDir c path (DefaultTheme c), ListPageTpl c], defaultTpl c),
                     (Join [theme_TemplateDir c path (DefaultTheme c), PageTpl c], []),
                     (Join [theme_CssDir c path (DefaultTheme c), ''style.css''], defaultCss c)]
              in createFiles rank files d'))"

definition CreateProject ::
  "config \<Rightarrow> (string \<Rightarrow> nat) \<Rightarrow> string
     \<Rightarrow> CreateProjectOptions \<Rightarrow> disk \<Rightarrow> ((panic \<times> disk) + (error option \<times> disk)) option" where
  "CreateProject c rank path options d =
     (if \<not> IsSafeToRemove d path (Overwrite options) then Some (Inr (Some ErrProjectExists, d))
      else if path \<noteq> ''.'' then
        (case os_RemoveAll path d of
           (Some err, d') \<Rightarrow> Some (Inr (Some err, d'))
         | (None, d') \<Rightarrow> Some (Inr (project_layout c rank path d')))
      else
        (case Walk_disk path cleanFn d of
           None \<Rightarrow> None
         | Some (Inl p) \<Rightarrow> Some (Inl p)
         | Some (Inr (err, d')) \<Rightarrow>
             if err \<noteq> None
             then Some (Inr (Some (ErrorString ''Cannot remove existing files from current directory.''), d'))
             else Some (Inr (project_layout c rank path d'))))"

definition CreateTheme ::
  "config \<Rightarrow> (string \<Rightarrow> nat) \<Rightarrow> CreateThemeOptions
     \<Rightarrow> string \<Rightarrow> disk \<Rightarrow> error option \<times> disk" where
  "CreateTheme c rank options name d =
     (if IsNotExist (err_of (os_Stat (Project options) d)) then (Some ErrProjectNotExists, d)
      else if theme_Exists c d (Project options) name then (Some ErrThemeExists, d)
      else
        let dirs = [theme_TemplateDir c (Project options) name,
                    theme_CssDir c (Project options) name,
                    theme_JsDir c (Project options) name]
        in case mkdir_each dirs d of
             (Some err, d') \<Rightarrow> (Some err, d')
           | (None, d') \<Rightarrow>
               (let files = map_literal
                      [(Join [theme_TemplateDir c (Project options) name, ListPageTpl c], []),
                       (Join [theme_TemplateDir c (Project options) name, PageTpl c], []),
                       (Join [theme_Dir c (Project options) name, ''theme.yml''], defaultThemeConfig c)]
                in createFiles rank files d'))"

section \<open>Cleaned paths\<close>

text \<open>
  What \<open>clean_elem\<close> keeps, last element first: no element is empty, is \<open>.\<close> or
  holds a separator; a rooted path keeps no \<open>..\<close>; and below a \<open>..\<close> there are only
  further \<open>..\<close>.
\<close>

fun dots_at_bottom :: "string list \<Rightarrow> bool" where
  "dots_at_bottom [] = True"
| "dots_at_bottom (e # kept) = (if e = ''..'' then (\<forall>x \<in> set kept. x = ''..'') else dots_at_bottom kept)"

definition kept_ok :: "bool \<Rightarrow> string list \<Rightarrow> bool" where
  "kept_ok r kept =
     ((\<forall>e \<in> set kept. e \<noteq> [] \<and> e \<noteq> ''.'' \<and> Separator \<notin> set e)
      \<and> (r \<longrightarrow> ''..'' \<notin> set kept)
      \<and> dots_at_bottom kept)"

text \<open>
  The cleaned form of a path: whether it is rooted, and the elements that
  \<open>filepath.Clean\<close> keeps.
\<close>

definition cleaned :: "string \<Rightarrow> bool \<times> string list" where
  "cleaned p = (rooted p, clean_elems p)"

section \<open>Well-formed disks\<close>

text \<open>
  A name as a directory listing gives it: not empty, not \<open>.\<close> or \<open>..\<close>, without a
  separator. On a well-formed disk every key is made of such names, and every entry
  lies in a directory that is on the disk.
\<close>

definition plain_name :: "string \<Rightarrow> bool" where
  "plain_name n = (n \<noteq> [] \<and> n \<noteq> ''.'' \<and> n \<noteq> ''..'' \<and> Separator \<notin> set n)"

definition wf_disk :: "disk \<Rightarrow> bool" where
  "wf_disk d =
     (\<forall>(k, e) \<in> set (entries d).
        k \<noteq> [] \<and> (\<forall>n \<in> set k. plain_name n) \<and> lookup d (butlast k) = Some Directory)"

text \<open>
  \<open>grows d d'\<close>: \<open>d'\<close> has the current directory of \<open>d\<close>, every directory of \<open>d\<close>, and a
  regular file wherever \<open>d\<close> has one.
\<close>

definition grows :: "disk \<Rightarrow> disk \<Rightarrow> bool" where
  "grows d d' =
     (cwd d' = cwd d
      \<and> (\<forall>k. lookup d k = Some Directory \<longrightarrow> lookup d' k = Some Directory)
      \<and> (\<forall>k c. lookup d k = Some (RegularFile c) \<longrightarrow> (\<exists>c'. lookup d' k = Some (RegularFile c'))))"

section \<open>Values for the examples\<close>

text \<open>One choice of the constants that the model takes as parameters.\<close>

definition example_config :: config where
  "example_config =
     \<lparr>ContentDir = ''content'', DefaultTheme = ''default'',
      ListPageTpl = ''list-page.html'', PageTpl = ''page.html'',
      ThemesDir = ''themes'', JsDirName = ''js'',
      defaultConfig = ''version: 1'', defaultGitignore = ''target/'',
      defaultTpl = ''<html></html>'', defaultCss = ''body {}'',
      defaultThemeConfig = ''version: 1''\<rparr>"

section \<open>Properties of StreamFiles\<close>

lemma filters_pass_iff: "filters_pass filters file = (\<forall>p\<in>set filters. p file)"
  by (induction filters) auto

lemma streamFn_ret:
  assumes "streamFn root filters file info err s = Inr (e, s')"
  shows "closes s' = closes s \<and> ErrStreaming s' = ErrStreaming s \<and> e = err
       \<and> (err = None \<longrightarrow> (\<exists>i. info = Some i \<and>
             sent s' = sent s @ (if \<not> IsDir i \<and> filters_pass filters file then [relative root file] else [])))
       \<and> (err \<noteq> None \<longrightarrow> s' = s)"
  using assms
  by (auto simp: streamFn_def send_def relative_def split: option.splits if_splits sum.splits)

lemma walk_stream:
  "(walk (streamFn root filters) path n s = Inr (err, s') \<longrightarrow>
      closes s' = closes s \<and> ErrStreaming s' = ErrStreaming s \<and> err \<noteq> Some SkipDir
    \<and> set (sent s') \<subseteq> set (sent s) \<union> relative root ` set (filter (filters_pass filters) (non_directories path n))
    \<and> (err = None \<longrightarrow> sent s' = sent s @ map (relative root) (filter (filters_pass filters) (non_directories path n))))"
  "(walk_entries (streamFn root filters) path es s = Inr (err, s') \<longrightarrow>
      closes s' = closes s \<and> ErrStreaming s' = ErrStreaming s \<and> err \<noteq> Some SkipDir
    \<and> set (sent s') \<subseteq> set (sent s) \<union> relative root ` set (filter (filters_pass filters) (non_directories_entries path es))
    \<and> (err = None \<longrightarrow> sent s' = sent s @ map (relative root) (filter (filters_pass filters) (non_directories_entries path es))))"
proof (induction "streamFn root filters" path n s and "streamFn root filters" path es s arbitrary: err s' and err s' rule: walk_walk_entries.induct)
  case (1 path s)
  then show ?case by (auto dest!: streamFn_ret)
next
  case (2 path s)
  then show ?case by (auto dest!: streamFn_ret)
next
  case (3 path s)
  then show ?case by (auto dest!: streamFn_ret)
next
  case (4 path e s)
  then show ?case by (auto dest!: streamFn_ret)
next
  case (5 path e s)
  then show ?case by (auto dest!: streamFn_ret)
next
  case (6 path entries s)
  show ?case 
  proof
    assume a: "walk (streamFn root filters) path (Dir entries) s = Inr (err, s')"
    then obtain e1 s1 where f: "streamFn root filters path (Some (FileInfo True)) None s = Inr (e1, s1)"
      by (auto split: sum.splits)
    from streamFn_ret[OF f] have s1: "e1 = None" "closes s1 = closes s" "ErrStreaming s1 = ErrStreaming s" "sent s1 = sent s"
      by auto
    from a f s1 have w: "walk_entries (streamFn root filters) path entries s1 = Inr (err, s')" by simp
    have "\<not> e1 \<noteq> None" using s1 by simp
    note ih = 6[OF f refl this, of err s', rule_format, OF w]
    from ih s1 show "closes s' = closes s \<and> ErrStreaming s' = ErrStreaming s \<and> err \<noteq> Some SkipDir
    \<and> set (sent s') \<subseteq> set (sent s) \<union> relative root ` set (filter (filters_pass filters) (non_directories path (Dir entries)))
    \<and> (err = None \<longrightarrow> sent s' = sent s @ map (relative root) (filter (filters_pass filters) (non_directories path (Dir entries))))"
      by simp
  qed
next
  case (7 path s)
  then show ?case by auto
next
  case (8 path name child rest s)
  let ?fn = "streamFn root filters"
  let ?f = "Join [path, name]"
  show ?case
  proof (cases "Lstat child")
    case (Inl e)
    then have c: "child = NoStat e" by (cases child) auto
    show ?thesis
    proof
      assume a: "walk_entries ?fn path ((name, child) # rest) s = Inr (err, s')"
      have "?fn ?f None (Some (PathError e)) s = Inr (Some (PathError e), s)"
        by (simp add: streamFn_def)
      with a Inl have "err = Some (PathError e)" "s' = s" by auto
      then show "closes s' = closes s \<and> ErrStreaming s' = ErrStreaming s \<and> err \<noteq> Some SkipDir
    \<and> set (sent s') \<subseteq> set (sent s) \<union> relative root ` set (filter (filters_pass filters) (non_directories_entries path ((name, child) # rest)))
    \<and> (err = None \<longrightarrow> sent s' = sent s @ map (relative root) (filter (filters_pass filters) (non_directories_entries path ((name, child) # rest))))"
        by auto
    qed
  next
    case (Inr fi)
    show ?thesis
    proof
      assume a: "walk_entries ?fn path ((name, child) # rest) s = Inr (err, s')"
      then obtain e1 s1 where w: "walk ?fn ?f child s = Inr (e1, s1)"
        using Inr by (auto split: sum.splits)
      note ih1 = 8(2)[OF refl Inr, of e1 s1, rule_format, OF w]
      show "closes s' = closes s \<and> ErrStreaming s' = ErrStreaming s \<and> err \<noteq> Some SkipDir
    \<and> set (sent s') \<subseteq> set (sent s) \<union> relative root ` set (filter (filters_pass filters) (non_directories_entries path ((name, child) # rest)))
    \<and> (err = None \<longrightarrow> sent s' = sent s @ map (relative root) (filter (filters_pass filters) (non_directories_entries path ((name, child) # rest))))"
      proof (cases e1)
        case None
        with a w Inr have r: "walk_entries ?fn path rest s1 = Inr (err, s')" by simp
        have "\<not> (e1 \<noteq> None \<and> (\<not> IsDir fi \<or> e1 \<noteq> Some SkipDir))" using None by simp
        note ih2 = 8(3)[OF refl Inr w refl this, of err s', rule_format, OF r]
        from ih1 ih2 None show ?thesis by auto
      next
        case (Some e)
        with ih1 have "e \<noteq> SkipDir" by simp
        with a w Inr Some have "err = e1" "s' = s1" by auto
        with ih1 Some show ?thesis by auto
      qed
    qed
  qed
qed



lemma Walk_stream:
  assumes "Walk root (streamFn root filters) tree s = Inr (err, s1)"
  shows "closes s1 = closes s" and "ErrStreaming s1 = ErrStreaming s"
    and "set (sent s1) \<subseteq> set (sent s) \<union> relative root ` set (filter (filters_pass filters) (non_directories root tree))"
    and "err = None \<Longrightarrow> sent s1 = sent s @ map (relative root) (filter (filters_pass filters) (non_directories root tree))"
proof -
  have all: "closes s1 = closes s \<and> ErrStreaming s1 = ErrStreaming s
    \<and> set (sent s1) \<subseteq> set (sent s) \<union> relative root ` set (filter (filters_pass filters) (non_directories root tree))
    \<and> (err = None \<longrightarrow> sent s1 = sent s @ map (relative root) (filter (filters_pass filters) (non_directories root tree)))"
  proof (cases "Lstat tree")
    case (Inl e)
    then have "streamFn root filters root None (Some (PathError e)) s = Inr (Some (PathError e), s)"
      by (simp add: streamFn_def)
    with assms Inl have "err = Some (PathError e)" "s1 = s"
      by (auto simp: Walk_def)
    then show ?thesis by simp
  next
    case (Inr info)
    with assms obtain e1 where w: "walk (streamFn root filters) root tree s = Inr (e1, s1)"
      and e: "err = (if e1 = Some SkipDir then None else e1)"
      by (auto simp: Walk_def split: sum.splits if_splits)
    note f = walk_stream(1)[of root filters root tree s e1 s1, rule_format, OF w]
    from f have "e1 \<noteq> Some SkipDir" by simp
    with e have "err = e1" by simp
    with f show ?thesis by simp
  qed
  from all show "closes s1 = closes s" by simp
  from all show "ErrStreaming s1 = ErrStreaming s" by simp
  from all show "set (sent s1) \<subseteq> set (sent s) \<union> relative root ` set (filter (filters_pass filters) (non_directories root tree))" by simp
  from all show "err = None \<Longrightarrow> sent s1 = sent s @ map (relative root) (filter (filters_pass filters) (non_directories root tree))" by simp
qed

lemma StreamFiles_missing:
  assumes "IsNotExist (Stat_err tree)" and "closes s = 0"
  shows "StreamFiles root filters tree s = Inr (None, s\<lparr>closes := 1\<rparr>)"
  using assms by (simp add: StreamFiles_def close_def)

lemma StreamFiles_present:
  assumes "\<not> IsNotExist (Stat_err tree)"
    and "Walk root (streamFn root filters) tree s = Inr (err, s1)" and "closes s = 0"
  shows "StreamFiles root filters tree s = Inr (err, s1\<lparr>ErrStreaming := err, closes := 1\<rparr>)"
proof -
  from Walk_stream(1)[OF assms(2)] assms(3) have "closes s1 = 0" by simp
  with assms(1,2) show ?thesis
    by (simp add: StreamFiles_def close_def Let_def)
qed

lemma StreamFiles_ret:
  assumes "StreamFiles root filters tree s = Inr (err, s')"
  shows "closes s = 0"
    and "IsNotExist (Stat_err tree) \<Longrightarrow> err = None \<and> s' = s\<lparr>closes := 1\<rparr>"
    and "\<not> IsNotExist (Stat_err tree) \<Longrightarrow>
           \<exists>s1. Walk root (streamFn root filters) tree s = Inr (err, s1) \<and> s' = s1\<lparr>ErrStreaming := err, closes := 1\<rparr>"
proof -
  show c: "closes s = 0"
  proof (cases "IsNotExist (Stat_err tree)")
    case True
    with assms show ?thesis
      by (auto simp: StreamFiles_def close_def split: if_splits)
  next
    case False
    with assms obtain e1 s1 where w: "Walk root (streamFn root filters) tree s = Inr (e1, s1)"
      and cl: "close (s1\<lparr>ErrStreaming := e1\<rparr>) \<noteq> Inl (CloseOfClosedChannel, s1\<lparr>ErrStreaming := e1\<rparr>)"
      by (auto simp: StreamFiles_def Let_def close_def split: sum.splits if_splits)
    from cl have "closes s1 = 0" by (simp add: close_def split: if_splits)
    with Walk_stream(1)[OF w] show ?thesis by simp
  qed
  show "IsNotExist (Stat_err tree) \<Longrightarrow> err = None \<and> s' = s\<lparr>closes := 1\<rparr>"
    using assms StreamFiles_missing[OF _ c, of tree root filters] by simp
  show "\<not> IsNotExist (Stat_err tree) \<Longrightarrow>
           \<exists>s1. Walk root (streamFn root filters) tree s = Inr (err, s1) \<and> s' = s1\<lparr>ErrStreaming := err, closes := 1\<rparr>"
  proof -
    assume n: "\<not> IsNotExist (Stat_err tree)"
    with assms obtain e1 s1 where w: "Walk root (streamFn root filters) tree s = Inr (e1, s1)"
      by (auto simp: StreamFiles_def Let_def split: sum.splits)
    from StreamFiles_present[OF n w c] assms w show ?thesis by simp
  qed
qed

lemma streamFn_cong_set:
  assumes "set filters' = set filters"
  shows "streamFn root filters' = streamFn root filters"
proof -
  have "filters_pass filters' f = filters_pass filters f" for f
    using assms by (simp add: filters_pass_iff)
  then show ?thesis
    by (intro ext) (simp add: streamFn_def)
qed


subsection \<open>A missing root\<close>

text \<open>
  C4 (as amended). When \<open>os.Stat\<close> reports that the root is missing (an error for
  which \<open>os.IsNotExist\<close> holds), \<open>StreamFiles\<close> sends nothing, closes the open channel
  and returns \<open>nil\<close>.
\<close>
theorem StreamFiles_missing_root:
  assumes "IsNotExist (Stat_err tree)" and "closes s = 0"
  shows "StreamFiles root filters tree s = Inr (None, s\<lparr>closes := 1\<rparr>)
       \<and> sent (s\<lparr>closes := 1\<rparr>) = sent s"
  using StreamFiles_missing[OF assms] by simp

theorem StreamFiles_missing_root_witness:
  "IsNotExist (Stat_err (NoStat ENOENT))
   \<and> StreamFiles ''content'' [MarkdownOnly, NoUnderscores] (NoStat ENOENT)
        \<lparr>sent = [], closes = 0, ErrStreaming = None\<rparr>
      = Inr (None, \<lparr>sent = [], closes = 1, ErrStreaming = None\<rparr>)"
proof -
  have h1: "IsNotExist (Stat_err (NoStat ENOENT))" by (simp add: Stat_err_def)
  have h2: "closes \<lparr>sent = [], closes = 0, ErrStreaming = None\<rparr> = 0" by simp
  from StreamFiles_missing_root[OF h1 h2, of "''content''" "[MarkdownOnly, NoUnderscores]"] h1
  show ?thesis by simp
qed

text \<open>
  A root that does not exist and for which \<open>StreamFiles\<close> returns an error: the root
  \<open>f.txt/sub\<close>, where \<open>f.txt\<close> is a regular file. Nothing has that name, but
  \<open>os.Stat\<close> fails with \<open>ENOTDIR\<close>, for which \<open>os.IsNotExist\<close> is false; the walk starts,
  its \<open>os.Lstat\<close> fails in the same way, and the callback returns that error.
\<close>

theorem StreamFiles_missing_root_below_file:
  "Stat_err (NoStat ENOTDIR) = Some (PathError ENOTDIR)
   \<and> IsNotExist (Stat_err (NoStat ENOTDIR)) = False
   \<and> StreamFiles ''f.txt/sub'' [] (NoStat ENOTDIR) \<lparr>sent = [], closes = 0, ErrStreaming = None\<rparr>
      = Inr (Some (PathError ENOTDIR),
             \<lparr>sent = [], closes = 1, ErrStreaming = Some (PathError ENOTDIR)\<rparr>)"
  by code_simp

subsection \<open>The streamed set\<close>

text \<open>
  C1 (as amended). Whenever \<open>StreamFiles\<close> returns \<open>nil\<close>, the paths it has sent are
  the emitted forms (\<open>relative\<close>) of exactly those entries of the tree that are not
  directories (regular files, and also symbolic links and special files) and that
  every filter accepts; under the root \<open>.\<close> they are those entries' traversal paths
  themselves. The outcome depends on the set of the filters only, not on their order. In the tree
  with \<open>notes.md\<close>, \<open>_draft.md\<close> and \<open>image.png\<close> under \<open>.\<close>, the filters
  \<open>MarkdownOnly\<close> and \<open>NoUnderscores\<close> let exactly \<open>notes.md\<close> through.
\<close>
theorem StreamFiles_emits_matching_files:
  "(StreamFiles root filters tree s = Inr (None, s') \<longrightarrow>
      set (sent s') = set (sent s) \<union>
        relative root ` {f \<in> set (non_directories root tree). \<forall>p\<in>set filters. p f})
   \<and> (StreamFiles ''.'' filters tree s = Inr (None, s') \<longrightarrow>
      set (sent s') = set (sent s) \<union> {f \<in> set (non_directories ''.'' tree). \<forall>p\<in>set filters. p f})
   \<and> (set filters' = set filters \<longrightarrow>
      StreamFiles root filters' tree s = StreamFiles root filters tree s)
   \<and> StreamFiles ''.'' [MarkdownOnly, NoUnderscores]
        (Dir [(''_draft.md'', File), (''image.png'', File), (''notes.md'', File)])
        \<lparr>sent = [], closes = 0, ErrStreaming = None\<rparr>
      = Inr (None, \<lparr>sent = [''notes.md''], closes = 1, ErrStreaming = None\<rparr>)"
proof -
  have a: "set (sent s') = set (sent s) \<union>
        relative root ` {f \<in> set (non_directories root tree). \<forall>p\<in>set filters. p f}"
    if r: "StreamFiles root filters tree s = Inr (None, s')" for root
  proof (cases "IsNotExist (Stat_err tree)")
    case True
    then have "tree = NoStat ENOENT"
      by (cases tree) (auto simp: Stat_err_def elim: IsNotExist.elims)
    with StreamFiles_ret(2)[OF r True] show ?thesis by simp
  next
    case False
    from StreamFiles_ret(3)[OF r False] obtain s1
      where w: "Walk root (streamFn root filters) tree s = Inr (None, s1)"
        and s': "s' = s1\<lparr>ErrStreaming := None, closes := 1\<rparr>" by blast
    from Walk_stream(4)[OF w] s'
    have "sent s' = sent s @ map (relative root) (filter (filters_pass filters) (non_directories root tree))"
      by simp
    then show ?thesis
      by (auto simp: filters_pass_iff)
  qed
  have b: "set (sent s') = set (sent s) \<union> {f \<in> set (non_directories ''.'' tree). \<forall>p\<in>set filters. p f}"
    if r: "StreamFiles ''.'' filters tree s = Inr (None, s')"
  proof -
    have "relative ''.'' ` A = A" for A
      by (auto simp: relative_def image_iff)
    with a[OF r] show ?thesis by simp
  qed
  have c: "StreamFiles root filters' tree s = StreamFiles root filters tree s"
    if "set filters' = set filters"
    using streamFn_cong_set[OF that] by (simp add: StreamFiles_def)
  have d: "StreamFiles ''.'' [MarkdownOnly, NoUnderscores]
        (Dir [(''_draft.md'', File), (''image.png'', File), (''notes.md'', File)])
        \<lparr>sent = [], closes = 0, ErrStreaming = None\<rparr>
      = Inr (None, \<lparr>sent = [''notes.md''], closes = 1, ErrStreaming = None\<rparr>)"
    by code_simp
  from a b c d show ?thesis by blast
qed

theorem StreamFiles_emits_matching_files_witness:
  "StreamFiles ''site'' [MarkdownOnly, NoUnderscores]
     (Dir [(''_old.md'', File), (''about.md'', File), (''img'', Dir [(''logo.png'', File)]),
           (''latest.md'', Symlink), (''pipe'', Special)])
     \<lparr>sent = [], closes = 0, ErrStreaming = None\<rparr>
   = Inr (None, \<lparr>sent = [''/about.md'', ''/latest.md''], closes = 1, ErrStreaming = None\<rparr>)
   \<and> set [''/about.md'', ''/latest.md''] = relative ''site'' `
        {f \<in> set (non_directories ''site''
                 (Dir [(''_old.md'', File), (''about.md'', File), (''img'', Dir [(''logo.png'', File)]),
                       (''latest.md'', Symlink), (''pipe'', Special)])).
           \<forall>p\<in>set [MarkdownOnly, NoUnderscores]. p f}
   \<and> StreamFiles ''site'' [NoUnderscores, MarkdownOnly]
       (Dir [(''_old.md'', File), (''about.md'', File), (''img'', Dir [(''logo.png'', File)]),
             (''latest.md'', Symlink), (''pipe'', Special)])
       \<lparr>sent = [], closes = 0, ErrStreaming = None\<rparr>
     = Inr (None, \<lparr>sent = [''/about.md'', ''/latest.md''], closes = 1, ErrStreaming = None\<rparr>)"
proof -
  let ?t = "Dir [(''_old.md'', File), (''about.md'', File), (''img'', Dir [(''logo.png'', File)]),
                 (''latest.md'', Symlink), (''pipe'', Special)]"
  let ?s = "\<lparr>sent = [], closes = 0, ErrStreaming = None\<rparr>"
  let ?s' = "\<lparr>sent = [''/about.md'', ''/latest.md''], closes = 1, ErrStreaming = None\<rparr>"
  have h1: "StreamFiles ''site'' [MarkdownOnly, NoUnderscores] ?t ?s = Inr (None, ?s')"
    by code_simp
  have h2: "set [NoUnderscores, MarkdownOnly] = set [MarkdownOnly, NoUnderscores]"
    by auto
  note t = StreamFiles_emits_matching_files[of "''site''" "[MarkdownOnly, NoUnderscores]" ?t ?s ?s'
              "[NoUnderscores, MarkdownOnly]"]
  from t h1 have "set (sent ?s') = set (sent ?s) \<union> relative ''site'' `
        {f \<in> set (non_directories ''site'' ?t). \<forall>p\<in>set [MarkdownOnly, NoUnderscores]. p f}"
    by blast
  moreover from t h2 have "StreamFiles ''site'' [NoUnderscores, MarkdownOnly] ?t ?s
      = StreamFiles ''site'' [MarkdownOnly, NoUnderscores] ?t ?s"
    by blast
  ultimately show ?thesis using h1 by simp
qed

text \<open>
  Three runs in which the streamed set is not the set of the regular files that pass
  the filters. A walk that fails stops early: under the root \<open>.\<close> the unreadable
  directory \<open>a\<close> ends the traversal before \<open>b.md\<close> is reached, and nothing is
  streamed. Under the root \<open>site\<close> the file \<open>site/about.md\<close> is streamed as
  \<open>/about.md\<close>, which is neither its path in the traversal nor its path below the
  root. And the callback asks \<open>IsDir\<close> only: under the root \<open>.\<close> with the regular file
  \<open>a.md\<close> and the symbolic link \<open>ln\<close>, both are streamed, while the regular files
  are \<open>a.md\<close> alone.
\<close>

theorem StreamFiles_partial_on_failed_walk:
  "StreamFiles ''.'' [MarkdownOnly] (Dir [(''a'', DirErr EACCES), (''b.md'', File)])
     \<lparr>sent = [], closes = 0, ErrStreaming = None\<rparr>
   = Inr (Some (PathError EACCES), \<lparr>sent = [], closes = 1, ErrStreaming = Some (PathError EACCES)\<rparr>)
   \<and> filter (filters_pass [MarkdownOnly])
        (regular_files ''.'' (Dir [(''a'', DirErr EACCES), (''b.md'', File)])) = [''b.md'']
   \<and> set (sent \<lparr>sent = [], closes = 1, ErrStreaming = Some (PathError EACCES)\<rparr>)
       \<noteq> set (filter (filters_pass [MarkdownOnly])
                (regular_files ''.'' (Dir [(''a'', DirErr EACCES), (''b.md'', File)])))
   \<and> StreamFiles ''site'' [MarkdownOnly] (Dir [(''about.md'', File)])
       \<lparr>sent = [], closes = 0, ErrStreaming = None\<rparr>
     = Inr (None, \<lparr>sent = [''/about.md''], closes = 1, ErrStreaming = None\<rparr>)
   \<and> filter (filters_pass [MarkdownOnly]) (regular_files ''site'' (Dir [(''about.md'', File)]))
     = [''site/about.md'']
   \<and> set (sent \<lparr>sent = [''/about.md''], closes = 1, ErrStreaming = None\<rparr>)
       \<noteq> set (filter (filters_pass [MarkdownOnly])
                (regular_files ''site'' (Dir [(''about.md'', File)])))
   \<and> set (sent \<lparr>sent = [''/about.md''], closes = 1, ErrStreaming = None\<rparr>) \<noteq> set [''about.md'']
   \<and> StreamFiles ''.'' [] (Dir [(''a.md'', File), (''ln'', Symlink)])
       \<lparr>sent = [], closes = 0, ErrStreaming = None\<rparr>
     = Inr (None, \<lparr>sent = [''a.md'', ''ln''], closes = 1, ErrStreaming = None\<rparr>)
   \<and> filter (filters_pass []) (regular_files ''.'' (Dir [(''a.md'', File), (''ln'', Symlink)]))
     = [''a.md'']
   \<and> set (sent \<lparr>sent = [''a.md'', ''ln''], closes = 1, ErrStreaming = None\<rparr>)
       \<noteq> set (filter (filters_pass [])
                (regular_files ''.'' (Dir [(''a.md'', File), (''ln'', Symlink)])))"
  by code_simp

subsection \<open>Closing the channel\<close>

text \<open>
  C2 (as amended). Started on an open channel, every call of \<open>StreamFiles\<close> that
  returns has closed the channel exactly once: a missing root closes it and returns
  \<open>nil\<close>; where the walk returns, with or without an error, the walk itself has not
  closed the channel, and the call closes it and then returns the walk's result. The
  error travels in the return value only: everything sent is the relative form of an
  entry of the tree that is not a directory.
\<close>

theorem StreamFiles_closes_channel_once:
  assumes "closes s = 0"
  shows "(IsNotExist (Stat_err tree) \<longrightarrow>
            StreamFiles root filters tree s = Inr (None, s\<lparr>closes := 1\<rparr>))
       \<and> (\<not> IsNotExist (Stat_err tree) \<and> Walk root (streamFn root filters) tree s = Inr (err, s1) \<longrightarrow>
            closes s1 = 0
          \<and> StreamFiles root filters tree s = Inr (err, s1\<lparr>ErrStreaming := err, closes := 1\<rparr>))
       \<and> (StreamFiles root filters tree s = Inr (r, s') \<longrightarrow>
            closes s' = 1
          \<and> set (sent s') \<subseteq> set (sent s) \<union> relative root ` set (non_directories root tree))"
proof (intro conjI impI)
  assume "IsNotExist (Stat_err tree)"
  then show "StreamFiles root filters tree s = Inr (None, s\<lparr>closes := 1\<rparr>)"
    using assms by (rule StreamFiles_missing)
next
  assume a: "\<not> IsNotExist (Stat_err tree) \<and> Walk root (streamFn root filters) tree s = Inr (err, s1)"
  then have w: "Walk root (streamFn root filters) tree s = Inr (err, s1)" by simp
  from Walk_stream(1)[OF w] assms show "closes s1 = 0" by simp
  from a assms show "StreamFiles root filters tree s = Inr (err, s1\<lparr>ErrStreaming := err, closes := 1\<rparr>)"
    by (simp add: StreamFiles_present)
next
  assume r: "StreamFiles root filters tree s = Inr (r, s')"
  show "closes s' = 1"
  proof (cases "IsNotExist (Stat_err tree)")
    case True
    from StreamFiles_ret(2)[OF r True] show ?thesis by simp
  next
    case False
    from StreamFiles_ret(3)[OF r False] show ?thesis by auto
  qed
  show "set (sent s') \<subseteq> set (sent s) \<union> relative root ` set (non_directories root tree)"
  proof (cases "IsNotExist (Stat_err tree)")
    case True
    from StreamFiles_ret(2)[OF r True] show ?thesis by simp
  next
    case False
    from StreamFiles_ret(3)[OF r False] obtain s1
      where w: "Walk root (streamFn root filters) tree s = Inr (r, s1)"
        and s': "s' = s1\<lparr>ErrStreaming := r, closes := 1\<rparr>" by blast
    from Walk_stream(3)[OF w] s' show ?thesis by auto
  qed
qed

theorem StreamFiles_closes_channel_once_witness:
  "closes \<lparr>sent = [], closes = 0, ErrStreaming = None\<rparr> = 0
   \<and> \<not> IsNotExist (Stat_err (Dir [(''a.md'', File), (''z'', DirErr EACCES), (''zz.md'', File)]))
   \<and> Walk ''site'' (streamFn ''site'' []) (Dir [(''a.md'', File), (''z'', DirErr EACCES), (''zz.md'', File)])
        \<lparr>sent = [], closes = 0, ErrStreaming = None\<rparr>
      = Inr (Some (PathError EACCES), \<lparr>sent = [''/a.md''], closes = 0, ErrStreaming = None\<rparr>)
   \<and> StreamFiles ''site'' [] (Dir [(''a.md'', File), (''z'', DirErr EACCES), (''zz.md'', File)])
        \<lparr>sent = [], closes = 0, ErrStreaming = None\<rparr>
      = Inr (Some (PathError EACCES),
             \<lparr>sent = [''/a.md''], closes = 1, ErrStreaming = Some (PathError EACCES)\<rparr>)
   \<and> StreamFiles ''site'' [] (NoStat ENOENT) \<lparr>sent = [], closes = 0, ErrStreaming = None\<rparr>
      = Inr (None, \<lparr>sent = [], closes = 1, ErrStreaming = None\<rparr>)"
proof -
  let ?t = "Dir [(''a.md'', File), (''z'', DirErr EACCES), (''zz.md'', File)]"
  let ?s = "\<lparr>sent = [], closes = 0, ErrStreaming = None\<rparr>"
  let ?s1 = "\<lparr>sent = [''/a.md''], closes = 0, ErrStreaming = None\<rparr>"
  have h0: "closes ?s = 0" by simp
  have h1: "\<not> IsNotExist (Stat_err ?t)" by (simp add: Stat_err_def)
  have h2: "Walk ''site'' (streamFn ''site'' []) ?t ?s = Inr (Some (PathError EACCES), ?s1)"
    by code_simp
  have h3: "IsNotExist (Stat_err (NoStat ENOENT))" by (simp add: Stat_err_def)
  from StreamFiles_closes_channel_once[OF h0, of ?t "''site''" "[]" "Some (PathError EACCES)" ?s1] h1 h2
  have "StreamFiles ''site'' [] ?t ?s
      = Inr (Some (PathError EACCES), ?s1\<lparr>ErrStreaming := Some (PathError EACCES), closes := 1\<rparr>)"
    by blast
  moreover
  from StreamFiles_closes_channel_once[OF h0, of "NoStat ENOENT" "''site''" "[]"] h3
  have "StreamFiles ''site'' [] (NoStat ENOENT) ?s = Inr (None, ?s\<lparr>closes := 1\<rparr>)"
    by blast
  ultimately show ?thesis using h0 h1 h2 by simp
qed

text \<open>
  A run that ends without the channel being closed: under the root \<open>./content/\<close>
  the file \<open>x\<close> is visited as \<open>content/x\<close>, which is shorter than the root, and the
  slice in the callback panics inside the walk, before the statement that closes the
  channel. In the state in which the run ends, the channel has been closed zero
  times.
\<close>

theorem StreamFiles_panic_before_close:
  "Walk ''./content/'' (streamFn ''./content/'' []) (Dir [(''x'', File)])
     \<lparr>sent = [], closes = 0, ErrStreaming = None\<rparr>
       = Inl (SliceBoundsOutOfRange, \<lparr>sent = [], closes = 0, ErrStreaming = None\<rparr>)
   \<and> StreamFiles ''./content/'' [] (Dir [(''x'', File)])
       \<lparr>sent = [], closes = 0, ErrStreaming = None\<rparr>
       = Inl (SliceBoundsOutOfRange, \<lparr>sent = [], closes = 0, ErrStreaming = None\<rparr>)"
  by code_simp

subsection \<open>The emitted path\<close>

text \<open>
  C5 (as amended). For a file that is not a directory and passes all filters, on an
  open channel: under the root \<open>.\<close> the callback sends the traversal path as it is;
  under any other root, provided the traversal path has at least \<open>len(root)\<close> bytes,
  it sends the traversal path without its first \<open>len(root)\<close> bytes, whatever those
  bytes are. A walk that returns \<open>nil\<close> has sent, in the order of the traversal, one
  such path for each entry that is not a directory and passes the filters, and nothing
  else.
\<close>

theorem streamFn_emitted_path:
  assumes "filters_pass filters file" and "closes s = 0"
  shows "(root = ''.'' \<longrightarrow>
            streamFn root filters file (Some (FileInfo False)) None s
              = Inr (None, s\<lparr>sent := sent s @ [file]\<rparr>))
       \<and> (root \<noteq> ''.'' \<and> length root \<le> length file \<longrightarrow>
            streamFn root filters file (Some (FileInfo False)) None s
              = Inr (None, s\<lparr>sent := sent s @ [drop (length root) file]\<rparr>))
       \<and> (StreamFiles root filters tree s = Inr (None, s') \<longrightarrow>
            sent s' = sent s @ map (\<lambda>f. if root = ''.'' then f else drop (length root) f)
                                 (filter (filters_pass filters) (non_directories root tree)))"
proof (intro conjI impI)
  assume "root = ''.''"
  with assms show "streamFn root filters file (Some (FileInfo False)) None s
              = Inr (None, s\<lparr>sent := sent s @ [file]\<rparr>)"
    by (simp add: streamFn_def send_def)
next
  assume "root \<noteq> ''.'' \<and> length root \<le> length file"
  with assms show "streamFn root filters file (Some (FileInfo False)) None s
              = Inr (None, s\<lparr>sent := sent s @ [drop (length root) file]\<rparr>)"
    by (simp add: streamFn_def send_def)
next
  assume r: "StreamFiles root filters tree s = Inr (None, s')"
  have rel: "(\<lambda>f. if root = ''.'' then f else drop (length root) f) = relative root"
    by (intro ext) (simp add: relative_def)
  show "sent s' = sent s @ map (\<lambda>f. if root = ''.'' then f else drop (length root) f)
                                 (filter (filters_pass filters) (non_directories root tree))"
  proof (cases "IsNotExist (Stat_err tree)")
    case True
    then have "tree = NoStat ENOENT"
      by (cases tree) (auto simp: Stat_err_def elim: IsNotExist.elims)
    with StreamFiles_ret(2)[OF r True] show ?thesis by simp
  next
    case False
    from StreamFiles_ret(3)[OF r False] obtain s1
      where w: "Walk root (streamFn root filters) tree s = Inr (None, s1)"
        and s': "s' = s1\<lparr>ErrStreaming := None, closes := 1\<rparr>" by blast
    from Walk_stream(4)[OF w] s' rel show ?thesis by simp
  qed
qed

theorem streamFn_emitted_path_witness:
  "filters_pass [MarkdownOnly] ''notes.md''
   \<and> streamFn ''.'' [MarkdownOnly] ''notes.md'' (Some (FileInfo False)) None
        \<lparr>sent = [], closes = 0, ErrStreaming = None\<rparr>
      = Inr (None, \<lparr>sent = [''notes.md''], closes = 0, ErrStreaming = None\<rparr>)
   \<and> filters_pass [MarkdownOnly] ''sitemap/a.md''
   \<and> streamFn ''site'' [MarkdownOnly] ''sitemap/a.md'' (Some (FileInfo False)) None
        \<lparr>sent = [], closes = 0, ErrStreaming = None\<rparr>
      = Inr (None, \<lparr>sent = [''map/a.md''], closes = 0, ErrStreaming = None\<rparr>)"
proof -
  let ?s = "\<lparr>sent = [], closes = 0, ErrStreaming = None\<rparr>"
  have h0: "closes ?s = 0" by simp
  have h1: "filters_pass [MarkdownOnly] ''notes.md''" by code_simp
  have h2: "filters_pass [MarkdownOnly] ''sitemap/a.md''" by code_simp
  have h3: "''site'' \<noteq> ''.'' \<and> length ''site'' \<le> length ''sitemap/a.md''" by simp
  from streamFn_emitted_path[OF h1 h0, of "''.''"]
  have "streamFn ''.'' [MarkdownOnly] ''notes.md'' (Some (FileInfo False)) None ?s
      = Inr (None, ?s\<lparr>sent := sent ?s @ [''notes.md'']\<rparr>)" by blast
  moreover
  from streamFn_emitted_path[OF h2 h0, of "''site''"] h3
  have "streamFn ''site'' [MarkdownOnly] ''sitemap/a.md'' (Some (FileInfo False)) None ?s
      = Inr (None, ?s\<lparr>sent := sent ?s @ [drop (length ''site'') ''sitemap/a.md'']\<rparr>)" by blast
  ultimately show ?thesis using h1 h2 by simp
qed

text \<open>
  Under the root \<open>./a/\<close> the walk reports the file \<open>x\<close> as \<open>a/x\<close>: three bytes, one
  less than the root. The file passes the (empty) filter chain, but no path is
  emitted for it: the slice panics, and the run ends with nothing sent.
\<close>

theorem streamFn_short_path_panics:
  "non_directories ''./a/'' (Dir [(''x'', File)]) = [''a/x'']
   \<and> filters_pass [] ''a/x''
   \<and> streamFn ''./a/'' [] ''a/x'' (Some (FileInfo False)) None
        \<lparr>sent = [], closes = 0, ErrStreaming = None\<rparr>
       = Inl (SliceBoundsOutOfRange, \<lparr>sent = [], closes = 0, ErrStreaming = None\<rparr>)
   \<and> StreamFiles ''./a/'' [] (Dir [(''x'', File)])
        \<lparr>sent = [], closes = 0, ErrStreaming = None\<rparr>
       = Inl (SliceBoundsOutOfRange, \<lparr>sent = [], closes = 0, ErrStreaming = None\<rparr>)"
  by code_simp

text \<open>
  C9. Under a root other than \<open>.\<close>, a matched file whose traversal path is the root,
  a separator and a remainder is emitted as the separator followed by the remainder:
  the emitted string begins with the separator. The root \<open>site\<close> with the file
  \<open>site/about.md\<close> emits \<open>/about.md\<close>.
\<close>

theorem streamFn_keeps_separator:
  assumes "root \<noteq> ''.''" and "filters_pass filters (root @ Separator # remainder)"
    and "closes s = 0"
  shows "streamFn root filters (root @ Separator # remainder) (Some (FileInfo False)) None s
           = Inr (None, s\<lparr>sent := sent s @ [Separator # remainder]\<rparr>)
       \<and> StreamFiles ''site'' [] (Dir [(''about.md'', File)])
           \<lparr>sent = [], closes = 0, ErrStreaming = None\<rparr>
         = Inr (None, \<lparr>sent = [''/about.md''], closes = 1, ErrStreaming = None\<rparr>)"
proof
  from assms show "streamFn root filters (root @ Separator # remainder) (Some (FileInfo False)) None s
           = Inr (None, s\<lparr>sent := sent s @ [Separator # remainder]\<rparr>)"
    by (simp add: streamFn_def send_def)
  show "StreamFiles ''site'' [] (Dir [(''about.md'', File)])
           \<lparr>sent = [], closes = 0, ErrStreaming = None\<rparr>
         = Inr (None, \<lparr>sent = [''/about.md''], closes = 1, ErrStreaming = None\<rparr>)"
    by code_simp
qed

theorem streamFn_keeps_separator_witness:
  "''content'' \<noteq> ''.''
   \<and> filters_pass [MarkdownOnly, NoUnderscores] (''content'' @ Separator # ''blog/post.md'')
   \<and> streamFn ''content'' [MarkdownOnly, NoUnderscores] ''content/blog/post.md''
        (Some (FileInfo False)) None \<lparr>sent = [], closes = 0, ErrStreaming = None\<rparr>
      = Inr (None, \<lparr>sent = [''/blog/post.md''], closes = 0, ErrStreaming = None\<rparr>)"
proof -
  let ?s = "\<lparr>sent = [], closes = 0, ErrStreaming = None\<rparr>"
  have h1: "''content'' \<noteq> ''.''" by simp
  have h2: "filters_pass [MarkdownOnly, NoUnderscores] (''content'' @ Separator # ''blog/post.md'')"
    by code_simp
  have h3: "closes ?s = 0" by simp
  from streamFn_keeps_separator[OF h1 h2 h3] h1 h2 show ?thesis
    by (simp add: Separator_def)
qed

subsection \<open>The package variable\<close>



section \<open>Properties of cleaned paths\<close>

text \<open>Cleaning a cleaned path changes nothing, so a path and its cleaned form name the same entry.\<close>

lemma split_sep_nonempty: "split_sep s \<noteq> []"
  by (induction s) (auto split: list.splits)

lemma split_sep_no_sep: "e \<in> set (split_sep s) \<Longrightarrow> Separator \<notin> set e"
proof (induction s arbitrary: e)
  case Nil
  then show ?case by simp
next
  case (Cons c s)
  show ?case
  proof (cases "c = Separator")
    case True
    with Cons show ?thesis by auto
  next
    case False
    obtain x xs where x: "split_sep s = x # xs"
      using split_sep_nonempty[of s] by (cases "split_sep s") auto
    with Cons.prems False have "e = c # x \<or> e \<in> set xs" by auto
    then show ?thesis
    proof
      assume "e = c # x"
      moreover have "Separator \<notin> set x" using Cons.IH[of x] x by simp
      ultimately show ?thesis using False by auto
    next
      assume "e \<in> set xs"
      then show ?thesis using Cons.IH[of e] x by simp
    qed
  qed
qed

lemma split_sep_append: "split_sep (a @ Separator # b) = split_sep a @ split_sep b"
proof (induction a)
  case Nil
  show ?case by simp
next
  case (Cons c a)
  obtain x xs where x: "split_sep a = x # xs"
    using split_sep_nonempty[of a] by (cases "split_sep a") auto
  with Cons show ?case by simp
qed

lemma split_sep_single: "Separator \<notin> set e \<Longrightarrow> split_sep e = [e]"
  by (induction e) auto

lemma split_join:
  "es \<noteq> [] \<Longrightarrow> \<forall>e \<in> set es. Separator \<notin> set e \<Longrightarrow> split_sep (join_sep es) = es"
proof (induction es rule: join_sep.induct)
  case 1
  then show ?case by simp
next
  case (2 e)
  then show ?case by (simp add: split_sep_single)
next
  case (3 e e' es)
  then have "split_sep (join_sep (e' # es)) = e' # es" by simp
  moreover have "split_sep e = [e]" using 3 by (simp add: split_sep_single)
  ultimately show ?case by (simp add: split_sep_append)
qed

declare clean_elem.simps [simp del]

lemma all_dots_at_bottom: "\<forall>x \<in> set kept. x = ''..'' \<Longrightarrow> dots_at_bottom kept"
  by (induction kept) auto

lemma clean_elem_ok:
  assumes "kept_ok r kept" and "Separator \<notin> set e"
  shows "kept_ok r (clean_elem r kept e)"
proof (cases "e = [] \<or> e = ''.''")
  case True
  with assms show ?thesis by (auto simp: clean_elem.simps)
next
  case False
  show ?thesis
  proof (cases "e = ''..''")
    case True
    show ?thesis
    proof (cases kept)
      case Nil
      with True show ?thesis by (simp add: kept_ok_def Separator_def clean_elem.simps)
    next
      case (Cons k ks)
      with True assms show ?thesis
        by (auto simp: kept_ok_def Separator_def clean_elem.simps all_dots_at_bottom split: if_splits)
    qed
  next
    case e: False
    with False assms show ?thesis by (auto simp: kept_ok_def clean_elem.simps)
  qed
qed

lemma foldl_clean_ok:
  "kept_ok r kept \<Longrightarrow> \<forall>e \<in> set es. Separator \<notin> set e \<Longrightarrow> kept_ok r (foldl (clean_elem r) kept es)"
proof (induction es arbitrary: kept)
  case Nil
  then show ?case by simp
next
  case (Cons e es)
  from Cons.prems have "kept_ok r (clean_elem r kept e)" by (simp add: clean_elem_ok)
  with Cons show ?case by simp
qed

lemma kept_ok_Nil: "kept_ok r []"
  by (simp add: kept_ok_def)

lemma kept_ok_clean_elems: "kept_ok (rooted p) (rev (clean_elems p))"
  unfolding clean_elems_def rev_rev_ident
  by (rule foldl_clean_ok[OF kept_ok_Nil]) (simp add: split_sep_no_sep)

lemma kept_ok_tl: "kept_ok r (e # kept) \<Longrightarrow> kept_ok r kept"
  by (auto simp: kept_ok_def all_dots_at_bottom split: if_splits)

lemma clean_back: "kept_ok r kept \<Longrightarrow> foldl (clean_elem r) [] (rev kept) = kept"
proof (induction kept)
  case Nil
  show ?case by simp
next
  case (Cons e kept)
  from Cons have ih: "foldl (clean_elem r) [] (rev kept) = kept"
    using kept_ok_tl by blast
  have "clean_elem r kept e = e # kept"
  proof (cases "e = ''..''")
    case True
    with Cons.prems have "\<not> r" and "\<forall>x \<in> set kept. x = ''..''"
      by (auto simp: kept_ok_def)
    with True show ?thesis by (cases kept) (auto simp: clean_elem.simps)
  next
    case False
    with Cons.prems show ?thesis by (auto simp: kept_ok_def clean_elem.simps)
  qed
  with ih show ?case by simp
qed

lemma join_sep_first:
  "es \<noteq> [] \<Longrightarrow> hd es \<noteq> [] \<Longrightarrow> join_sep es \<noteq> [] \<and> hd (join_sep es) = hd (hd es)"
  by (induction es rule: join_sep.induct) auto

lemma cleaned_render:
  assumes "kept_ok r kept"
  shows "cleaned (render r (rev kept)) = (r, rev kept)"
proof -
  let ?es = "rev kept"
  have nosep: "\<forall>e \<in> set ?es. Separator \<notin> set e" using assms by (auto simp: kept_ok_def)
  have split: "foldl (clean_elem r) [] (split_sep (join_sep ?es)) = kept" if "?es \<noteq> []"
    using split_join[OF that nosep] clean_back[OF assms] by simp
  show ?thesis
  proof (cases r)
    case True
    have "rooted (Separator # join_sep ?es)" by (simp add: rooted_def)
    moreover have "foldl (clean_elem True) [] (split_sep (Separator # join_sep ?es)) = kept"
    proof (cases "?es = []")
      case e: True
      then show ?thesis by (simp add: clean_elem.simps)
    next
      case False
      with split True show ?thesis by (simp add: clean_elem.simps)
    qed
    ultimately show ?thesis using True
      by (simp add: cleaned_def render_def clean_elems_def)
  next
    case False
    show ?thesis
    proof (cases "?es = []")
      case True
      with False show ?thesis
        by (simp add: cleaned_def render_def clean_elems_def rooted_def Separator_def clean_elem.simps)
    next
      case ne: False
      then have "hd ?es \<in> set ?es" by (rule hd_in_set)
      then have "hd ?es \<in> set kept" by simp
      with assms have h: "hd ?es \<noteq> []" "Separator \<notin> set (hd ?es)"
        by (auto simp: kept_ok_def)
      from join_sep_first[OF ne h(1)] have j: "join_sep ?es \<noteq> []" "hd (join_sep ?es) = hd (hd ?es)"
        by simp_all
      from h have "hd (hd ?es) \<noteq> Separator" by (cases "hd ?es") auto
      with j have nr: "\<not> rooted (join_sep ?es)"
        by (cases "join_sep ?es") (auto simp: rooted_def)
      with split[OF ne] False ne show ?thesis
        by (simp add: cleaned_def render_def clean_elems_def)
    qed
  qed
qed

lemma cleaned_Clean: "cleaned (Clean p) = cleaned p"
  using cleaned_render[OF kept_ok_clean_elems[of p]]
  by (simp add: Clean_def cleaned_def)

lemma Clean_nonempty: "Clean p \<noteq> []"
proof (cases "rooted p")
  case True
  then show ?thesis by (simp add: Clean_def render_def)
next
  case False
  show ?thesis
  proof (cases "clean_elems p = []")
    case True
    with False show ?thesis by (simp add: Clean_def render_def)
  next
    case ne: False
    then have "hd (clean_elems p) \<in> set (clean_elems p)" by (rule hd_in_set)
    then have "hd (clean_elems p) \<in> set (rev (clean_elems p))" by simp
    with kept_ok_clean_elems[of p] have "hd (clean_elems p) \<noteq> []"
      unfolding kept_ok_def by blast
    from join_sep_first[OF ne this] False ne show ?thesis
      by (simp add: Clean_def render_def)
  qed
qed

lemma Join_nonempty: "p \<noteq> [] \<Longrightarrow> Join (p # ps) \<noteq> []"
  by (simp add: Join_def Clean_nonempty)

lemma Clean_idem: "Clean (Clean p) = Clean p"
proof -
  from cleaned_Clean[of p] have "rooted (Clean p) = rooted p" "clean_elems (Clean p) = clean_elems p"
    by (simp_all add: cleaned_def)
  then show ?thesis by (simp add: Clean_def)
qed

lemma Clean_name: "plain_name n \<Longrightarrow> Clean n = n"
proof -
  assume pn: "plain_name n"
  then have "split_sep n = [n]" by (simp add: plain_name_def split_sep_single)
  moreover from pn have "\<not> rooted n"
    by (cases n) (auto simp: rooted_def plain_name_def)
  ultimately show ?thesis using pn
    by (simp add: Clean_def clean_elems_def clean_elem.simps render_def plain_name_def)
qed

lemma Join_render:
  assumes "p \<noteq> []" and "plain_name x"
  shows "Join [p, x] = render (rooted p) (clean_elems p @ [x])"
proof -
  have j: "Join [p, x] = Clean (p @ Separator # x)"
    using assms(1) by (simp add: Join_def)
  have r: "rooted (p @ Separator # x) = rooted p"
    using assms(1) by (cases p) (auto simp: rooted_def)
  have "split_sep (p @ Separator # x) = split_sep p @ [x]"
    using assms(2) by (simp add: split_sep_append split_sep_single plain_name_def)
  then have "clean_elems (p @ Separator # x) = clean_elems p @ [x]"
    using assms(2) r by (simp add: clean_elems_def clean_elem.simps plain_name_def)
  with r j show ?thesis by (simp add: Clean_def)
qed

lemma Join_dot_name: "plain_name n \<Longrightarrow> Join [''.'', n] = n"
proof -
  assume pn: "plain_name n"
  have "rooted ''.'' = False" "clean_elems ''.'' = []" by code_simp+
  with Join_render[of "''.''" n] pn show ?thesis
    by (simp add: render_def)
qed

lemma split_render:
  assumes "kept_ok r (rev es)"
  shows "split_sep (render r es) =
           (if r then [] # (if es = [] then [[]] else es) else if es = [] then [''.''] else es)"
proof -
  have nosep: "\<forall>e \<in> set es. Separator \<notin> set e" using assms by (auto simp: kept_ok_def)
  have "split_sep (join_sep es) = es" if "es \<noteq> []"
    using split_join[OF that nosep] .
  moreover have "split_sep ''.'' = [''.'']" by code_simp
  ultimately show ?thesis
    by (auto simp: render_def)
qed

lemma rooted_render:
  assumes "kept_ok r (rev es)"
  shows "rooted (render r es) = r"
  using cleaned_render[OF assms] by (simp add: cleaned_def)

lemma render_nonempty:
  assumes "kept_ok r (rev es)"
  shows "render r es \<noteq> []"
proof (cases "r \<or> es = []")
  case True
  then show ?thesis by (auto simp: render_def)
next
  case False
  then have ne: "es \<noteq> []" and nr: "\<not> r" by simp_all
  from ne have "hd es \<in> set (rev es)" by simp
  with assms have "hd es \<noteq> []" unfolding kept_ok_def by blast
  from join_sep_first[OF ne this] nr ne show ?thesis by (simp add: render_def)
qed

lemma kept_ok_snoc:
  assumes "kept_ok r (rev es)" and "plain_name x"
  shows "kept_ok r (rev (es @ [x]))"
  using assms by (auto simp: kept_ok_def plain_name_def)

section \<open>Properties of path resolution\<close>

lemma step_Inl: "foldl (step d) (Inl e) cs = Inl e"
  by (induction cs) auto

lemma step_dir:
  "lookup d k = Some Directory \<Longrightarrow>
     step d (Inr k) c = Inr (if c = [] \<or> c = ''.'' then k else if c = ''..'' then butlast k else k @ [c])"
  by simp

lemma step_missing: "lookup d k = None \<Longrightarrow> step d (Inr k) c = Inl ENOENT"
  by simp

lemma step_file: "lookup d k = Some (RegularFile content) \<Longrightarrow> step d (Inr k) c = Inl ENOTDIR"
  by simp

lemma step_stay:
  "c = [] \<or> c = ''.'' \<Longrightarrow> step d (step d X c) x = step d X x"
  by (cases X) (auto split: option.splits entry.splits)

lemma step_name:
  assumes "step d X x = Inr kf" and "plain_name x"
  shows "\<exists>k. X = Inr k \<and> lookup d k = Some Directory \<and> kf = k @ [x]"
  using assms by (cases X) (auto simp: plain_name_def split: option.splits entry.splits)

declare step.simps [simp del]

text \<open>
  Joining a name to a cleaned path and resolving the result is resolving the path and
  then taking one more step, to the name.
\<close>

lemma locate_Join:
  assumes c: "Clean p = p" and x: "plain_name x"
  shows "locate d (Join [p, x]) = step d (locate d p) x"
proof -
  let ?r = "rooted p" and ?es = "clean_elems p"
  let ?start = "Inr (if ?r then [] else cwd d) :: errno + key"
  have ok: "kept_ok ?r (rev ?es)" by (rule kept_ok_clean_elems)
  have ok': "kept_ok ?r (rev (?es @ [x]))" using ok x by (rule kept_ok_snoc)
  have p: "p = render ?r ?es" using c by (simp add: Clean_def)
  have pne: "p \<noteq> []" using c Clean_nonempty[of p] by simp
  have j: "Join [p, x] = render ?r (?es @ [x])" using pne x by (rule Join_render)
  have lp: "locate d p = foldl (step d) ?start (split_sep (render ?r ?es))"
    using pne p by (simp add: locate_def)
  have lj: "locate d (Join [p, x]) = foldl (step d) ?start (split_sep (render ?r (?es @ [x])))"
    using render_nonempty[OF ok'] rooted_render[OF ok'] j by (simp add: locate_def)
  show ?thesis
  proof (cases "?es = []")
    case False
    then show ?thesis
      unfolding lp lj split_render[OF ok] split_render[OF ok'] by simp
  next
    case True
    show ?thesis
    proof (cases ?r)
      case r: True
      have "(foldl (step d) ?start (split_sep (render ?r (?es @ [x]))))
          = step d (step d ?start []) x"
        unfolding split_render[OF ok'] using True r by simp
      moreover have "foldl (step d) ?start (split_sep (render ?r ?es))
          = step d (step d ?start []) []"
        unfolding split_render[OF ok] using True r by simp
      ultimately show ?thesis
        unfolding lp lj by (simp add: step_stay)
    next
      case r: False
      have "(foldl (step d) ?start (split_sep (render ?r (?es @ [x])))) = step d ?start x"
        unfolding split_render[OF ok'] using True r by simp
      moreover have "foldl (step d) ?start (split_sep (render ?r ?es)) = step d ?start ''.''"
        unfolding split_render[OF ok] using True r by simp
      ultimately show ?thesis
        unfolding lp lj by (simp add: step_stay)
    qed
  qed
qed

lemma locate_name:
  assumes "plain_name n"
  shows "locate d n = step d (Inr (cwd d)) n"
proof -
  from assms have "split_sep n = [n]" by (simp add: plain_name_def split_sep_single)
  moreover from assms have "\<not> rooted n"
    by (cases n) (auto simp: rooted_def plain_name_def)
  ultimately show ?thesis using assms by (simp add: locate_def plain_name_def)
qed

lemma locate_dot: "locate d ''.'' = step d (Inr (cwd d)) ''.''"
proof -
  have "split_sep ''.'' = [''.'']" "rooted ''.'' = False" by code_simp+
  then show ?thesis by (simp add: locate_def)
qed

section \<open>Properties of the disk operations\<close>

lemma map_of_assign: "map_of (assign k v m) = (map_of m)(k \<mapsto> v)"
  by (induction m) auto

lemma assign_mem: "(k, v) \<in> set (assign k v m)"
  by (induction m) auto

lemma lookup_root [simp]: "lookup d [] = Some Directory"
  by (simp add: lookup_def)

lemma lookup_put:
  "lookup (put k e d) k' = (if k' = [] then Some Directory else if k' = k then Some e else lookup d k')"
  by (simp add: lookup_def put_def map_of_assign)

lemma cwd_put: "cwd (put k e d) = cwd d"
  by (simp add: put_def)

lemma grows_refl: "grows d d"
  by (simp add: grows_def)

lemma grows_trans: "grows d d1 \<Longrightarrow> grows d1 d2 \<Longrightarrow> grows d d2"
  unfolding grows_def by (metis (no_types, lifting))

lemma grows_put_new: "lookup d k = None \<Longrightarrow> grows d (put k e d)"
  by (auto simp: grows_def lookup_put cwd_put)

lemma grows_put_file:
  "lookup d k = Some (RegularFile old) \<Longrightarrow> grows d (put k (RegularFile data) d)"
  by (auto simp: grows_def lookup_put cwd_put)

lemma os_Mkdir_grows: "os_Mkdir name d = (err, d') \<Longrightarrow> grows d d'"
  by (auto simp: os_Mkdir_def grows_refl grows_put_new split: sum.splits if_splits)

lemma os_MkdirAll_grows: "os_MkdirAll path d = (err, d') \<Longrightarrow> grows d d'"
proof (induction path d arbitrary: err d' rule: os_MkdirAll.induct)
  case (1 path d)
  show ?case
  proof (cases "os_Stat path d")
    case (Inr dir)
    with "1.prems" have "d' = d"
      by (subst (asm) os_MkdirAll.simps) (auto split: if_splits)
    then show ?thesis by (simp add: grows_refl)
  next
    case (Inl e)
    obtain e1 d1 where up: "(if length (parent_end path) > 1
                 then os_MkdirAll (butlast (parent_end path)) d
                 else (None, d)) = (e1, d1)"
      by (cases "if length (parent_end path) > 1
                 then os_MkdirAll (butlast (parent_end path)) d
                 else (None, d)")
    have g1: "grows d d1"
    proof (cases "length (parent_end path) > 1")
      case True
      with up have "os_MkdirAll (butlast (parent_end path)) d = (e1, d1)" by simp
      from "1.IH"[OF Inl True this] show ?thesis .
    next
      case False
      with up show ?thesis by (simp add: grows_refl)
    qed
    obtain e2 d2 where mk: "os_Mkdir path d1 = (e2, d2)" by (cases "os_Mkdir path d1")
    from os_Mkdir_grows[OF mk] have g2: "grows d1 d2" .
    from "1.prems" Inl up mk have "d' = d1 \<or> d' = d2"
      by (subst (asm) os_MkdirAll.simps) (auto split: option.splits sum.splits if_splits)
    with g1 g2 show ?thesis using grows_trans by blast
  qed
qed

lemma mkdir_each_grows: "mkdir_each dirs d = (err, d') \<Longrightarrow> grows d d'"
proof (induction dirs arbitrary: d)
  case Nil
  then show ?case by (simp add: grows_refl)
next
  case (Cons dir dirs)
  obtain e1 d1 where m: "os_MkdirAll dir d = (e1, d1)" by (cases "os_MkdirAll dir d")
  from os_MkdirAll_grows[OF m] have g1: "grows d d1" .
  show ?case
  proof (cases e1)
    case None
    with Cons.prems m have "mkdir_each dirs d1 = (err, d')" by simp
    from Cons.IH[OF this] g1 show ?thesis using grows_trans by blast
  next
    case (Some e)
    with Cons.prems m g1 show ?thesis by simp
  qed
qed

lemma WriteFile_ok:
  assumes "ioutil_WriteFile filename data d = (None, d')"
  shows "\<exists>k. locate d filename = Inr k \<and> lookup d k \<noteq> Some Directory
              \<and> d' = put k (RegularFile data) d"
  using assms
  by (auto simp: ioutil_WriteFile_def split: if_splits sum.splits option.splits entry.splits)

lemma WriteFile_failed:
  "ioutil_WriteFile filename data d = (Some e, d') \<Longrightarrow> d' = d"
  by (auto simp: ioutil_WriteFile_def split: if_splits sum.splits option.splits entry.splits)

lemma WriteFile_grows:
  assumes "ioutil_WriteFile filename data d = (err, d')"
  shows "grows d d'"
proof (cases err)
  case None
  with assms WriteFile_ok[of filename data d d'] obtain k where
    k: "lookup d k \<noteq> Some Directory" "d' = put k (RegularFile data) d" by auto
  show ?thesis
  proof (cases "lookup d k")
    case None
    with k show ?thesis by (simp add: grows_put_new)
  next
    case (Some e)
    with k obtain old where "lookup d k = Some (RegularFile old)" by (cases e) auto
    with k show ?thesis by (simp add: grows_put_file)
  qed
next
  case (Some e)
  with assms WriteFile_failed[of filename data d e d'] show ?thesis by (simp add: grows_refl)
qed

lemma write_each_grows: "write_each files d = (err, d') \<Longrightarrow> grows d d'"
proof (induction files arbitrary: d)
  case Nil
  then show ?case by (simp add: grows_refl)
next
  case (Cons f files)
  obtain path content where f: "f = (path, content)" by (cases f)
  obtain e1 d1 where w: "ioutil_WriteFile path content d = (e1, d1)"
    by (cases "ioutil_WriteFile path content d")
  from WriteFile_grows[OF w] have g1: "grows d d1" .
  show ?case
  proof (cases e1)
    case None
    with Cons.prems f w have "write_each files d1 = (err, d')" by simp
    from Cons.IH[OF this] g1 show ?thesis using grows_trans by blast
  next
    case (Some e)
    with Cons.prems f w g1 show ?thesis by simp
  qed
qed

lemma createFiles_grows: "createFiles rank files d = (err, d') \<Longrightarrow> grows d d'"
  unfolding createFiles_def by (rule write_each_grows)

text \<open>On a disk that has only grown, a path leads where it led before.\<close>

lemma step_Inr:
  assumes "step d X c = Inr k"
  shows "\<exists>k0. X = Inr k0 \<and> lookup d k0 = Some Directory \<and> step d (Inr k0) c = Inr k"
  using assms by (cases X) (auto simp: step.simps split: option.splits entry.splits)

lemma step_ENOTDIR:
  assumes "step d X c = Inl ENOTDIR"
  shows "X = Inl ENOTDIR \<or> (\<exists>k0 content. X = Inr k0 \<and> lookup d k0 = Some (RegularFile content))"
  using assms by (cases X) (auto simp: step.simps split: option.splits entry.splits)

lemma step_errors:
  assumes "step d X c = Inl e" and "\<forall>e'. X = Inl e' \<longrightarrow> e' = ENOENT \<or> e' = ENOTDIR"
  shows "e = ENOENT \<or> e = ENOTDIR"
  using assms by (cases X) (auto simp: step.simps split: option.splits entry.splits)

lemma foldl_step_grows:
  assumes "grows d d'"
  shows "(foldl (step d) (Inr a) cs = Inr k \<longrightarrow> foldl (step d') (Inr a) cs = Inr k)
       \<and> (foldl (step d) (Inr a) cs = Inl ENOTDIR \<longrightarrow> foldl (step d') (Inr a) cs = Inl ENOTDIR)"
proof (induction cs arbitrary: k rule: rev_induct)
  case Nil
  show ?case by simp
next
  case (snoc c cs)
  let ?X = "foldl (step d) (Inr a) cs" and ?X' = "foldl (step d') (Inr a) cs"
  have dirs: "lookup d' k0 = Some Directory" if "lookup d k0 = Some Directory" for k0
    using assms that by (simp add: grows_def)
  have files: "\<exists>c'. lookup d' k0 = Some (RegularFile c')" if "lookup d k0 = Some (RegularFile c0)" for k0 c0
    using assms that unfolding grows_def by blast
  show ?case
  proof (intro conjI impI)
    assume "foldl (step d) (Inr a) (cs @ [c]) = Inr k"
    then have "step d ?X c = Inr k" by simp
    from step_Inr[OF this] obtain k0 where k0: "?X = Inr k0" "lookup d k0 = Some Directory"
      and s: "step d (Inr k0) c = Inr k" by blast
    from snoc k0 have "?X' = Inr k0" by simp
    moreover from s k0 dirs[OF k0(2)] have "step d' (Inr k0) c = Inr k"
      by (simp add: step.simps)
    ultimately show "foldl (step d') (Inr a) (cs @ [c]) = Inr k" by simp
  next
    assume "foldl (step d) (Inr a) (cs @ [c]) = Inl ENOTDIR"
    then have "step d ?X c = Inl ENOTDIR" by simp
    from step_ENOTDIR[OF this] show "foldl (step d') (Inr a) (cs @ [c]) = Inl ENOTDIR"
    proof
      assume "?X = Inl ENOTDIR"
      with snoc have "?X' = Inl ENOTDIR" by simp
      then show ?thesis by (simp add: step.simps)
    next
      assume "\<exists>k0 content. ?X = Inr k0 \<and> lookup d k0 = Some (RegularFile content)"
      then obtain k0 c0 where k0: "?X = Inr k0" "lookup d k0 = Some (RegularFile c0)" by blast
      from snoc k0 have "?X' = Inr k0" by simp
      moreover from files[OF k0(2)] obtain c' where "lookup d' k0 = Some (RegularFile c')" by blast
      ultimately show ?thesis by (simp add: step.simps)
    qed
  qed
qed

lemma foldl_step_errors:
  "foldl (step d) (Inr a) cs = Inl e \<Longrightarrow> e = ENOENT \<or> e = ENOTDIR"
proof (induction cs arbitrary: e rule: rev_induct)
  case Nil
  then show ?case by simp
next
  case (snoc c cs)
  then have "step d (foldl (step d) (Inr a) cs) c = Inl e" by simp
  from step_errors[OF this] snoc.IH show ?case by blast
qed

lemma locate_grows:
  assumes "grows d d'"
  shows "locate d p = Inr k \<Longrightarrow> locate d' p = Inr k"
    and "locate d p = Inl ENOTDIR \<Longrightarrow> locate d' p = Inl ENOTDIR"
proof -
  from assms have c: "cwd d' = cwd d" by (simp add: grows_def)
  note f = foldl_step_grows[OF assms, of "if rooted p then [] else cwd d" "split_sep p"]
  show "locate d p = Inr k \<Longrightarrow> locate d' p = Inr k"
    using f c by (auto simp: locate_def split: if_splits)
  show "locate d p = Inl ENOTDIR \<Longrightarrow> locate d' p = Inl ENOTDIR"
    using f c by (auto simp: locate_def split: if_splits)
qed

lemma locate_errors: "locate d p = Inl e \<Longrightarrow> e = ENOENT \<or> e = ENOTDIR"
  using foldl_step_errors[of d "if rooted p then [] else cwd d" "split_sep p" e]
  by (auto simp: locate_def split: if_splits)

lemma grows_entry: "grows d d' \<Longrightarrow> lookup d k \<noteq> None \<Longrightarrow> lookup d' k \<noteq> None"
proof -
  assume g: "grows d d'" and "lookup d k \<noteq> None"
  then obtain e where e: "lookup d k = Some e" by blast
  show ?thesis
  proof (cases e)
    case (RegularFile c0)
    with e g obtain c' where "lookup d' k = Some (RegularFile c')" unfolding grows_def by blast
    then show ?thesis by simp
  next
    case Directory
    with e g show ?thesis by (simp add: grows_def)
  qed
qed

lemma os_Stat_grows:
  assumes "grows d d'" and "\<not> IsNotExist (err_of (os_Stat p d))"
  shows "\<not> IsNotExist (err_of (os_Stat p d'))"
proof (cases "locate d p")
  case (Inr k)
  with assms(2) have "lookup d k \<noteq> None"
    by (auto simp: os_Stat_def resolve_def err_of_def split: option.splits)
  with assms(1) have "lookup d' k \<noteq> None" by (rule grows_entry)
  moreover from locate_grows(1)[OF assms(1) Inr] have "locate d' p = Inr k" .
  ultimately show ?thesis
    by (auto simp: os_Stat_def resolve_def err_of_def split: option.splits)
next
  case (Inl e)
  with assms(2) have "e \<noteq> ENOENT"
    by (auto simp: os_Stat_def resolve_def err_of_def)
  with locate_errors[OF Inl] have "e = ENOTDIR" by simp
  with Inl locate_grows(2)[OF assms(1)] have "locate d' p = Inl ENOTDIR" by simp
  then show ?thesis
    by (simp add: os_Stat_def resolve_def err_of_def)
qed

text \<open>A file that was written lies in a directory, and the directory stays.\<close>

lemma WriteFile_dir:
  assumes "ioutil_WriteFile (Join [p, x]) data d = (None, d')" and "Clean p = p" and "plain_name x"
  shows "\<exists>k. locate d p = Inr k \<and> lookup d k = Some Directory"
proof -
  from WriteFile_ok[OF assms(1)] obtain kf where "locate d (Join [p, x]) = Inr kf" by blast
  then have "step d (locate d p) x = Inr kf"
    using locate_Join[OF assms(2,3)] by simp
  from step_name[OF this assms(3)] show ?thesis by blast
qed

lemma dir_grows:
  assumes "grows d d'" and "locate d p = Inr k \<and> lookup d k = Some Directory"
  shows "locate d' p = Inr k \<and> lookup d' k = Some Directory"
  using assms locate_grows(1)[OF assms(1), of p k] by (simp add: grows_def)

lemma write_each_dir:
  "write_each files d = (None, d') \<Longrightarrow> (Join [p, x], content) \<in> set files
     \<Longrightarrow> Clean p = p \<Longrightarrow> plain_name x
     \<Longrightarrow> \<exists>k. locate d' p = Inr k \<and> lookup d' k = Some Directory"
proof (induction files arbitrary: d)
  case Nil
  then show ?case by simp
next
  case (Cons f files)
  obtain q c where f: "f = (q, c)" by (cases f)
  obtain e1 d1 where w: "ioutil_WriteFile q c d = (e1, d1)"
    by (cases "ioutil_WriteFile q c d")
  from Cons.prems(1) f w have e1: "e1 = None" and r: "write_each files d1 = (None, d')"
    by (auto split: option.splits)
  show ?case
  proof (cases "(Join [p, x], content) = f")
    case True
    with f w e1 have "ioutil_WriteFile (Join [p, x]) content d = (None, d1)" by simp
    from WriteFile_dir[OF this Cons.prems(3,4)] obtain k where
      k: "locate d p = Inr k \<and> lookup d k = Some Directory" by blast
    from WriteFile_grows[OF w] write_each_grows[OF r] have "grows d d'"
      using grows_trans by blast
    from dir_grows[OF this k] show ?thesis by blast
  next
    case False
    with Cons.prems(2) have "(Join [p, x], content) \<in> set files" by simp
    from Cons.IH[OF r this Cons.prems(3,4)] show ?thesis .
  qed
qed

lemma createFiles_dir:
  assumes "createFiles rank files d = (None, d')" and "(Join [p, x], content) \<in> set files"
    and "Clean p = p" and "plain_name x"
  shows "\<exists>k. locate d' p = Inr k \<and> lookup d' k = Some Directory"
proof -
  from assms(2) have "(Join [p, x], content) \<in> set (sort_key (\<lambda>(path, content). rank path) files)"
    by simp
  with assms(1) show ?thesis
    unfolding createFiles_def using assms(3,4) by (rule write_each_dir)
qed

section \<open>Properties of the traversal that empties the current directory\<close>

lemma os_Remove_error: "os_Remove name d = (Some e, d') \<Longrightarrow> \<exists>n. e = PathError n"
  by (auto simp: os_Remove_def split: if_splits sum.splits)

lemma removeAllFrom_error: "removeAllFrom parent base d = (Some e, d') \<Longrightarrow> \<exists>n. e = PathError n"
  by (auto simp: removeAllFrom_def Let_def split: if_splits)

lemma os_RemoveAll_error: "os_RemoveAll path d = (Some e, d') \<Longrightarrow> \<exists>n. e = PathError n"
  by (auto simp: os_RemoveAll_def split: if_splits prod.splits option.splits sum.splits
           dest: removeAllFrom_error)

lemma cleanFn_error:
  assumes "cleanFn path info err d = Inr (Some e, d')"
  shows "\<exists>n. e = PathError n"
proof -
  from assms have "os_RemoveAll path d = (Some e, d') \<or> os_Remove path d = (Some e, d')"
    by (auto simp: cleanFn_def split: if_splits option.splits)
  then show ?thesis
    using os_Remove_error os_RemoveAll_error by blast
qed

lemma os_Lstat_Inr:
  "os_Lstat path d = Inr info
     \<longleftrightarrow> (\<exists>k. resolve d path = Inr k \<and> info = FileInfo (lookup d k = Some Directory))"
  by (auto simp: os_Lstat_def os_Stat_def split: sum.splits)

lemma readDirNames_dir:
  assumes "os_Lstat path d = Inr info" and "IsDir info"
  shows "\<exists>k. resolve d path = Inr k \<and> lookup d k = Some Directory
            \<and> readDirNames path d = Inr (sort (child_names k d))"
  using assms by (auto simp: os_Lstat_Inr readDirNames_def)

lemma walk_disk_entry_error:
  assumes l: "os_Lstat (Join [path, name]) d = Inr info"
    and c: "cleanFn (Join [path, name]) (Some info) None d = Inr (Some e, d')"
  shows "walk_disk cleanFn (Inr (path, name # rest)) d = Some (Inr (Some e, d'))"
proof -
  let ?f = "Join [path, name]"
  from cleanFn_error[OF c] have ns: "e \<noteq> SkipDir" by auto
  have "walk_disk cleanFn (Inl (?f, info)) d = Some (Inr (Some e, d'))"
  proof (cases "IsDir info")
    case True
    from readDirNames_dir[OF l True] obtain names where "readDirNames ?f d = Inr names" by blast
    with c True show ?thesis
      by (subst walk_disk.simps) (simp add: err_of_def)
  next
    case False
    with c show ?thesis
      by (subst walk_disk.simps) simp
  qed
  with l ns show ?thesis
    by (subst walk_disk.simps) (simp add: Let_def)
qed

lemma map_of_filter_key:
  "map_of (filter (\<lambda>(k', e). P k') m) k = (if P k then map_of m k else None)"
  by (induction m) auto

lemma lookup_filter:
  "lookup (d\<lparr>entries := filter (\<lambda>(k', e). P k') (entries d)\<rparr>) k
     = (if k = [] \<or> P k then lookup d k else None)"
  by (simp add: lookup_def map_of_filter_key)

lemma lookup_in_entries: "lookup d k = Some e \<Longrightarrow> k \<noteq> [] \<Longrightarrow> (k, e) \<in> set (entries d)"
  by (simp add: lookup_def map_of_SomeD)

lemma entries_lookup: "(k, e) \<in> set (entries d) \<Longrightarrow> lookup d k \<noteq> None"
proof -
  assume "(k, e) \<in> set (entries d)"
  then have "k \<in> fst ` set (entries d)" by force
  then have "map_of (entries d) k \<noteq> None" by (simp add: map_of_eq_None_iff)
  then show ?thesis by (simp add: lookup_def)
qed

subsection \<open>Well-formed disks\<close>

lemma child_names_plain:
  assumes "wf_disk d" and "n \<in> set (child_names k d)"
  shows "plain_name n"
proof -
  from assms(2) obtain k' e where in_d: "(k', e) \<in> set (entries d)"
    and ne: "k' \<noteq> []" and n: "n = last k'"
    by (auto simp: child_names_def)
  from ne have "last k' \<in> set k'" by simp
  with assms(1) in_d n show ?thesis by (auto simp: wf_disk_def)
qed

lemma wf_parent:
  assumes "wf_disk d" and "lookup d (es @ [x]) \<noteq> None"
  shows "lookup d es = Some Directory"
proof -
  from assms(2) obtain e where "lookup d (es @ [x]) = Some e" by blast
  then have "(es @ [x], e) \<in> set (entries d)" by (simp add: lookup_in_entries)
  with assms(1) show ?thesis by (fastforce simp: wf_disk_def)
qed

lemma wf_ancestor:
  "wf_disk d \<Longrightarrow> lookup d (pre @ rest) \<noteq> None \<Longrightarrow> rest \<noteq> [] \<Longrightarrow> lookup d pre = Some Directory"
proof (induction rest rule: rev_induct)
  case Nil
  then show ?case by simp
next
  case (snoc x ys)
  from snoc.prems have "lookup d ((pre @ ys) @ [x]) \<noteq> None" by simp
  with snoc.prems(1) have p: "lookup d (pre @ ys) = Some Directory"
    using wf_parent by blast
  show ?case
  proof (cases "ys = []")
    case True
    with p show ?thesis by simp
  next
    case False
    with snoc p show ?thesis by auto
  qed
qed

lemma below_is_append: "at_or_below pre k \<longleftrightarrow> (\<exists>rest. k = pre @ rest)"
proof
  assume "at_or_below pre k"
  then have "k = pre @ drop (length pre) k"
    unfolding at_or_below_def by (metis append_take_drop_id)
  then show "\<exists>rest. k = pre @ rest" ..
next
  assume "\<exists>rest. k = pre @ rest"
  then show "at_or_below pre k" by (auto simp: at_or_below_def)
qed

lemma wf_nothing_below:
  assumes "wf_disk d" and "lookup d pre \<noteq> Some Directory" and "at_or_below pre k" and "k \<noteq> pre"
  shows "lookup d k = None"
proof (rule ccontr)
  assume ne: "lookup d k \<noteq> None"
  from assms(3) obtain rest where k: "k = pre @ rest"
    using below_is_append by blast
  from k assms(4) have "rest \<noteq> []" by auto
  from wf_ancestor[OF assms(1) ne[unfolded k] this] assms(2) show False by simp
qed

lemma wf_empty_dir:
  assumes "wf_disk d" and "child_names pre d = []" and "at_or_below pre k" and "k \<noteq> pre"
  shows "lookup d k = None"
proof (rule ccontr)
  assume ne: "lookup d k \<noteq> None"
  from assms(3) obtain rest where k: "k = pre @ rest"
    using below_is_append by blast
  with assms(4) obtain x rest' where rest: "rest = x # rest'" by (cases rest) auto
  have top: "lookup d (pre @ [x]) \<noteq> None"
  proof (cases "rest' = []")
    case True
    with ne k rest show ?thesis by simp
  next
    case False
    from ne k rest have "lookup d ((pre @ [x]) @ rest') \<noteq> None" by simp
    from wf_ancestor[OF assms(1) this False] show ?thesis by simp
  qed
  then obtain e0 where "lookup d (pre @ [x]) = Some e0" by blast
  then have "(pre @ [x], e0) \<in> set (entries d)" by (simp add: lookup_in_entries)
  then have "x \<in> set (child_names pre d)"
    by (force simp: child_names_def)
  with assms(2) show False by simp
qed

lemma below_child:
  assumes "at_or_below k (butlast es)" and "es \<noteq> []"
  shows "at_or_below k es"
proof -
  from assms(1) obtain rest where b: "butlast es = k @ rest"
    using below_is_append by blast
  from assms(2) have "es = butlast es @ [last es]" by simp
  with b have "es = k @ (rest @ [last es])" by simp
  then show ?thesis using below_is_append by blast
qed

text \<open>
  A disk that has lost an entry and everything below it, and nothing else, is still
  well-formed.
\<close>

lemma wf_without:
  assumes "wf_disk d" and "set (entries d') \<subseteq> set (entries d)" and "kr \<noteq> []"
    and l: "\<forall>k. lookup d' k = (if at_or_below kr k then None else lookup d k)"
  shows "wf_disk d'"
  unfolding wf_disk_def
proof (intro ballI, clarify, intro conjI)
  fix k e
  assume in': "(k, e) \<in> set (entries d')"
  with assms(2) have ind: "(k, e) \<in> set (entries d)" by blast
  with assms(1) show ne: "k \<noteq> []" and "\<forall>n \<in> set k. plain_name n"
    by (auto simp: wf_disk_def)
  from assms(1) ind have p: "lookup d (butlast k) = Some Directory"
    by (fastforce simp: wf_disk_def)
  from in' have "lookup d' k \<noteq> None" by (rule entries_lookup)
  with l have nb: "\<not> at_or_below kr k" by (auto split: if_splits)
  have "\<not> at_or_below kr (butlast k)"
    using below_child[of kr k] ne nb by auto
  with p l show "lookup d' (butlast k) = Some Directory" by simp
qed

subsection \<open>Removing an entry of the current directory\<close>

lemma os_Remove_ok:
  assumes "os_Remove name d = (None, d')"
  shows "\<exists>kr. resolve d name = Inr kr \<and> kr \<noteq> []
           \<and> (lookup d kr = Some Directory \<longrightarrow> child_names kr d = [])
           \<and> d' = d\<lparr>entries := filter (\<lambda>(k', e'). k' \<noteq> kr) (entries d)\<rparr>"
  using assms by (auto simp: os_Remove_def split: if_splits sum.splits)

lemma os_Remove_failed: "os_Remove name d = (Some e, d') \<Longrightarrow> d' = d"
  by (auto simp: os_Remove_def split: if_splits sum.splits)

lemma os_Remove_shrinks:
  assumes "os_Remove name d = (err, d')"
  shows "set (entries d') \<subseteq> set (entries d)" and "undeletable d' = undeletable d"
    and "cwd d' = cwd d"
  using assms by (auto simp: os_Remove_def split: if_splits sum.splits)

lemma removeAllFrom_shrinks:
  assumes "removeAllFrom parent base d = (err, d')"
  shows "set (entries d') \<subseteq> set (entries d)" and "undeletable d' = undeletable d"
    and "cwd d' = cwd d"
  using assms by (auto simp: removeAllFrom_def Let_def split: if_splits)

lemma os_RemoveAll_shrinks:
  assumes "os_RemoveAll path d = (err, d')"
  shows "set (entries d') \<subseteq> set (entries d)" and "undeletable d' = undeletable d"
    and "cwd d' = cwd d"
proof -
  from assms have "d' = d \<or> (\<exists>e. os_Remove path d = (e, d'))
                  \<or> (\<exists>parent base. removeAllFrom parent base d = (err, d'))"
    by (auto simp: os_RemoveAll_def split: if_splits prod.splits option.splits sum.splits)
  then consider (same) "d' = d" | (one) e where "os_Remove path d = (e, d')"
    | (more) parent base where "removeAllFrom parent base d = (err, d')" by blast
  then have "set (entries d') \<subseteq> set (entries d) \<and> undeletable d' = undeletable d \<and> cwd d' = cwd d"
  proof cases
    case same
    then show ?thesis by simp
  next
    case one
    from os_Remove_shrinks[OF one] show ?thesis by simp
  next
    case more
    from removeAllFrom_shrinks[OF more] show ?thesis by simp
  qed
  then show "set (entries d') \<subseteq> set (entries d)" and "undeletable d' = undeletable d"
    and "cwd d' = cwd d" by simp_all
qed

lemma strip_trailing_name: "plain_name n \<Longrightarrow> strip_trailing n = n"
proof -
  assume pn: "plain_name n"
  then have ne: "n \<noteq> []" and ns: "Separator \<notin> set n"
    by (auto simp: plain_name_def)
  from ne have "last n \<in> set n" by (rule last_in_set)
  with ns have "last n \<noteq> Separator" by metis
  with ne have "hd (rev n) \<noteq> Separator" by (simp add: hd_rev)
  moreover from ne have "rev n \<noteq> []" by simp
  ultimately have "dropWhile (\<lambda>c. c = Separator) (rev n) = rev n"
    by (cases "rev n") auto
  with ne show ?thesis by (simp add: strip_trailing_def)
qed

lemma final_elem_name: "plain_name n \<Longrightarrow> final_elem n = n"
  by (simp add: final_elem_def strip_trailing_name split_sep_single plain_name_def)

lemma endsWithDot_name: "plain_name n \<Longrightarrow> \<not> endsWithDot n"
proof
  assume pn: "plain_name n" and "endsWithDot n"
  then have "length n \<ge> 2" and "last (butlast n) = Separator"
    by (auto simp: endsWithDot_def plain_name_def split: if_splits)
  then have "butlast n \<noteq> []" by (cases n) auto
  then have "last (butlast n) \<in> set (butlast n)" by simp
  then have "last (butlast n) \<in> set n" by (rule in_set_butlastD)
  with \<open>last (butlast n) = Separator\<close> pn show False by (simp add: plain_name_def)
qed

lemma splitPath_name: "plain_name n \<Longrightarrow> splitPath n = (''.'', n)"
proof -
  assume pn: "plain_name n"
  then have nr: "\<not> rooted n" by (cases n) (auto simp: rooted_def plain_name_def)
  from pn have "Separator \<notin> set (butlast n)"
    by (auto simp: plain_name_def dest: in_set_butlastD)
  with nr pn show ?thesis
    by (simp add: splitPath_def strip_trailing_name)
qed

lemma resolve_dot:
  "lookup d (cwd d) = Some Directory \<Longrightarrow> resolve d ''.'' = Inr (cwd d)"
  by (simp add: resolve_def locate_dot step_dir)

lemma resolve_name:
  assumes "plain_name n" and "lookup d (cwd d) = Some Directory"
  shows "resolve d n = (if lookup d (cwd d @ [n]) = None then Inl ENOENT else Inr (cwd d @ [n]))"
  using assms by (auto simp: resolve_def locate_name step_dir plain_name_def)

text \<open>
  What the removal of the entry \<open>n\<close> of the current directory leaves when it succeeds:
  the disk without that entry and what is below it.
\<close>

lemma removeAllFrom_name:
  assumes wf: "wf_disk d" and pn: "plain_name n" and c: "lookup d (cwd d) = Some Directory"
    and r: "removeAllFrom (cwd d) n d = (None, d')"
  shows "lookup d' k = (if at_or_below (cwd d @ [n]) k then None else lookup d k)"
proof -
  let ?k = "cwd d @ [n]"
  from pn have base: "n \<noteq> [Separator]" "n \<noteq> ''.''" "n \<noteq> ''..''"
    by (auto simp: plain_name_def)
  show ?thesis
  proof (cases "lookup d ?k")
    case None
    with r c base have "d' = d" by (simp add: removeAllFrom_def)
    moreover have "lookup d k = None" if "at_or_below ?k k"
    proof (cases "k = ?k")
      case True
      with None show ?thesis by simp
    next
      case False
      from wf_nothing_below[OF wf _ that False] None show ?thesis by simp
    qed
    ultimately show ?thesis by simp
  next
    case (Some e0)
    with r c base have nb: "\<not> (\<exists>(k', e) \<in> set (entries d). k' \<noteq> ?k \<and> at_or_below ?k k' \<and> blocked d k')"
      and nu: "?k \<notin> set (undeletable d)"
      and d': "d' = d\<lparr>entries := filter (\<lambda>(k', e). \<not> at_or_below ?k k' \<or> blocked d k') (entries d)\<rparr>"
      by (auto simp: removeAllFrom_def Let_def split: if_splits)
    have l: "lookup d' k = (if k = [] \<or> \<not> at_or_below ?k k \<or> blocked d k then lookup d k else None)"
      unfolding d'
      using lookup_filter[where d = d and P = "\<lambda>k'. \<not> at_or_below ?k k' \<or> blocked d k'" and k = k]
      by simp
    have root: "\<not> at_or_below ?k []" by (simp add: at_or_below_def)
    have free: "\<not> blocked d k'" if ex: "lookup d k' \<noteq> None" and b: "at_or_below ?k k'" for k'
    proof
      assume bl: "blocked d k'"
      from b root have ne: "k' \<noteq> []" by auto
      from ex obtain e where "lookup d k' = Some e" by blast
      with ne have ind: "(k', e) \<in> set (entries d)" by (simp add: lookup_in_entries)
      show False
      proof (cases "k' = ?k")
        case False
        with ind b bl nb show False by blast
      next
        case True
        from bl obtain u where u: "u \<in> set (undeletable d)" "lookup d u \<noteq> None" "at_or_below k' u"
          by (auto simp: blocked_def)
        from u(3) True root have une: "u \<noteq> []" by auto
        from u(1) nu True have "u \<noteq> ?k" by auto
        moreover from u(2) obtain eu where "lookup d u = Some eu" by blast
        with une have "(u, eu) \<in> set (entries d)" by (simp add: lookup_in_entries)
        moreover have "blocked d u"
          using u(1,2) by (auto simp: blocked_def at_or_below_def)
        ultimately show False using nb u(3) True by blast
      qed
    qed
    show ?thesis
    proof (cases "at_or_below ?k k")
      case False
      with l show ?thesis by auto
    next
      case True
      with root have "k \<noteq> []" by auto
      with l True free[OF _ True] show ?thesis by (cases "lookup d k = None") auto
    qed
  qed
qed

lemma os_RemoveAll_name:
  assumes wf: "wf_disk d" and pn: "plain_name n" and c: "lookup d (cwd d) = Some Directory"
    and r: "os_RemoveAll n d = (None, d')"
  shows "lookup d' k = (if at_or_below (cwd d @ [n]) k then None else lookup d k)"
proof -
  let ?k = "cwd d @ [n]"
  from pn have ne: "n \<noteq> []" by (simp add: plain_name_def)
  note nd = endsWithDot_name[OF pn]
  have gone: "lookup d k = None" if "lookup d ?k = None" "at_or_below ?k k" for k
  proof (cases "k = ?k")
    case True
    with that show ?thesis by simp
  next
    case False
    from wf_nothing_below[OF wf _ that(2) False] that(1) show ?thesis by simp
  qed
  obtain e1 d1 where rm: "os_Remove n d = (e1, d1)" by (cases "os_Remove n d")
  show ?thesis
  proof (cases e1)
    case None
    with r rm ne nd have d': "d' = d1" by (simp add: os_RemoveAll_def)
    from os_Remove_ok[OF rm[unfolded None]] obtain kr where kr: "resolve d n = Inr kr"
      and emp: "lookup d kr = Some Directory \<longrightarrow> child_names kr d = []"
      and d1: "d1 = d\<lparr>entries := filter (\<lambda>(k', e'). k' \<noteq> kr) (entries d)\<rparr>" by blast
    from kr resolve_name[OF pn c] have k: "kr = ?k" by (auto split: if_splits)
    have l: "lookup d1 k = (if k = [] \<or> k \<noteq> ?k then lookup d k else None)"
      unfolding d1 k using lookup_filter[where d = d and P = "\<lambda>k'. k' \<noteq> ?k" and k = k] by simp
    have "lookup d k = None" if b: "at_or_below ?k k" and nk: "k \<noteq> ?k"
    proof (cases "lookup d ?k = Some Directory")
      case True
      with emp k have "child_names ?k d = []" by simp
      from wf_empty_dir[OF wf this b nk] show ?thesis .
    next
      case False
      from wf_nothing_below[OF wf False b nk] show ?thesis .
    qed
    with l d' show ?thesis by (auto simp: at_or_below_def)
  next
    case (Some e)
    show ?thesis
    proof (cases "IsNotExist (Some e)")
      case True
      with r rm Some ne nd have d': "d' = d" by (simp add: os_RemoveAll_def)
      from True have "e = PathError ENOENT" by (auto elim: IsNotExist.elims)
      with rm Some have "resolve d n = Inl ENOENT"
        by (auto simp: os_Remove_def final_elem_name[OF pn] split: if_splits sum.splits)
      with resolve_name[OF pn c] have "lookup d ?k = None" by (auto split: if_splits)
      with gone d' show ?thesis by simp
    next
      case False
      with r rm Some ne nd have "removeAllFrom (cwd d) n d = (None, d')"
        by (simp add: os_RemoveAll_def splitPath_name[OF pn] resolve_dot[OF c])
      from removeAllFrom_name[OF wf pn c this] show ?thesis .
    qed
  qed
qed

lemma os_Remove_name:
  assumes wf: "wf_disk d" and pn: "plain_name n" and c: "lookup d (cwd d) = Some Directory"
    and r: "os_Remove n d = (None, d')"
  shows "lookup d' k = (if at_or_below (cwd d @ [n]) k then None else lookup d k)"
proof -
  let ?k = "cwd d @ [n]"
  from os_Remove_ok[OF r] obtain kr where kr: "resolve d n = Inr kr"
    and emp: "lookup d kr = Some Directory \<longrightarrow> child_names kr d = []"
    and d': "d' = d\<lparr>entries := filter (\<lambda>(k', e'). k' \<noteq> kr) (entries d)\<rparr>" by blast
  from kr resolve_name[OF pn c] have k: "kr = ?k" by (auto split: if_splits)
  have l: "lookup d' k = (if k = [] \<or> k \<noteq> ?k then lookup d k else None)"
    unfolding d' k using lookup_filter[where d = d and P = "\<lambda>k'. k' \<noteq> ?k" and k = k] by simp
  have "lookup d k = None" if b: "at_or_below ?k k" and nk: "k \<noteq> ?k"
  proof (cases "lookup d ?k = Some Directory")
    case True
    with emp k have "child_names ?k d = []" by simp
    from wf_empty_dir[OF wf this b nk] show ?thesis .
  next
    case False
    from wf_nothing_below[OF wf False b nk] show ?thesis .
  qed
  with l show ?thesis by (auto simp: at_or_below_def)
qed

subsection \<open>The traversal\<close>

lemma walk_disk_done: "walk_disk walkFn (Inr (path, [])) d = Some (Inr (None, d))"
  by (subst walk_disk.simps) simp

lemma walk_disk_missing:
  assumes "os_Lstat (Join [path, name]) d = Inl e"
    and "walkFn (Join [path, name]) None (Some (PathError e)) d = Inr (None, d')"
  shows "walk_disk walkFn (Inr (path, name # rest)) d = walk_disk walkFn (Inr (path, rest)) d'"
  using assms by (subst walk_disk.simps) (simp add: Let_def)

lemma walk_disk_visited:
  assumes "os_Lstat (Join [path, name]) d = Inr info"
    and "walk_disk walkFn (Inl (Join [path, name], info)) d = Some (Inr (None, d'))"
  shows "walk_disk walkFn (Inr (path, name # rest)) d = walk_disk walkFn (Inr (path, rest)) d'"
  using assms by (subst walk_disk.simps) (simp add: Let_def)

lemma walk_disk_file:
  "\<not> IsDir info \<Longrightarrow> walk_disk walkFn (Inl (path, info)) d = Some (walkFn path (Some info) None d)"
  by (subst walk_disk.simps) simp

lemma walk_disk_dir:
  assumes "IsDir info" and "readDirNames path d = Inr names"
    and "walkFn path (Some info) None d = Inr (None, d')"
  shows "walk_disk walkFn (Inl (path, info)) d = walk_disk walkFn (Inr (path, names)) d'"
  using assms by (subst walk_disk.simps) (simp add: err_of_def)

lemma os_Lstat_name:
  assumes "plain_name n" and "lookup d (cwd d) = Some Directory"
  shows "os_Lstat n d = (case lookup d (cwd d @ [n]) of
                           None \<Rightarrow> Inl ENOENT
                         | Some e \<Rightarrow> Inr (FileInfo (e = Directory)))"
  using assms by (auto simp: os_Lstat_def os_Stat_def resolve_name split: option.splits)

text \<open>The names of a directory that has been removed are all skipped.\<close>

lemma walk_disk_skips_removed:
  assumes "plain_name n" and "lookup d (cwd d) = Some Directory" and "lookup d (cwd d @ [n]) = None"
  shows "\<forall>m \<in> set names. plain_name m \<Longrightarrow> walk_disk cleanFn (Inr (n, names)) d = Some (Inr (None, d))"
proof (induction names)
  case Nil
  show ?case by (rule walk_disk_done)
next
  case (Cons m names)
  then have pm: "plain_name m" by simp
  let ?f = "Join [n, m]"
  have "locate d ?f = step d (locate d n) m"
    using Clean_name[OF assms(1)] pm by (rule locate_Join)
  also have "locate d n = Inr (cwd d @ [n])"
    using assms(1,2) by (simp add: locate_name step_dir plain_name_def)
  also have "step d (Inr (cwd d @ [n])) m = Inl ENOENT"
    using assms(3) by (rule step_missing)
  finally have l: "os_Lstat ?f d = Inl ENOENT"
    by (simp add: os_Lstat_def os_Stat_def resolve_def)
  have c: "cleanFn ?f None (Some (PathError ENOENT)) d = Inr (None, d)"
    by (simp add: cleanFn_def)
  from walk_disk_missing[where walkFn = cleanFn, OF l c] Cons show ?case by simp
qed

text \<open>
  The loop over the names of the current directory returns on every well-formed disk;
  when it returns \<open>nil\<close>, the entries with these names are gone together with
  everything below them, and nothing else has changed.
\<close>

lemma clean_step:
  assumes wf: "wf_disk d" and c: "lookup d (cwd d) = Some Directory" and pn: "plain_name n"
  shows "(\<exists>e d1. walk_disk cleanFn (Inr (''.'', n # names)) d = Some (Inr (Some e, d1))
                 \<and> e \<noteq> SkipDir)
       \<or> (\<exists>d1. walk_disk cleanFn (Inr (''.'', n # names)) d = walk_disk cleanFn (Inr (''.'', names)) d1
                 \<and> set (entries d1) \<subseteq> set (entries d) \<and> cwd d1 = cwd d
                 \<and> (\<forall>k. lookup d1 k = (if at_or_below (cwd d @ [n]) k then None else lookup d k)))"
proof -
  let ?k = "cwd d @ [n]"
  have f: "Join [''.'', n] = n" using pn by (rule Join_dot_name)
  from pn have fnd: "n \<noteq> ''.''" by (simp add: plain_name_def)
  note ls = os_Lstat_name[OF pn c]
  show ?thesis
  proof (cases "lookup d ?k")
    case None
    with ls have l: "os_Lstat (Join [''.'', n]) d = Inl ENOENT" by (simp add: f)
    have cf: "cleanFn (Join [''.'', n]) None (Some (PathError ENOENT)) d = Inr (None, d)"
      by (simp add: cleanFn_def)
    have "lookup d k' = None" if "at_or_below ?k k'" for k'
    proof (cases "k' = ?k")
      case True
      with None show ?thesis by simp
    next
      case False
      from wf_nothing_below[OF wf _ that False] None show ?thesis by simp
    qed
    with walk_disk_missing[where walkFn = cleanFn, OF l cf] show ?thesis
      by auto
  next
    case (Some e)
    let ?info = "FileInfo (e = Directory)"
    from Some ls have l: "os_Lstat (Join [''.'', n]) d = Inr ?info" by (simp add: f)
    show ?thesis
    proof (cases "e = Directory")
      case False
      with fnd have cf: "cleanFn n (Some ?info) None d = Inr (os_Remove n d)"
        by (simp add: cleanFn_def)
      obtain er d1 where r: "os_Remove n d = (er, d1)" by (cases "os_Remove n d")
      show ?thesis
      proof (cases er)
        case None
        from False have w: "walk_disk cleanFn (Inl (Join [''.'', n], ?info)) d = Some (Inr (None, d1))"
          using walk_disk_file[of ?info cleanFn n d] cf r None by (simp add: f)
        from os_Remove_name[OF wf pn c r[unfolded None]] os_Remove_shrinks[OF r]
          walk_disk_visited[where walkFn = cleanFn, OF l w]
        show ?thesis by auto
      next
        case (Some e1)
        from cf r Some have ce: "cleanFn (Join [''.'', n]) (Some ?info) None d = Inr (Some e1, d1)"
          by (simp add: f)
        from cleanFn_error[OF ce] have "e1 \<noteq> SkipDir" by auto
        with walk_disk_entry_error[OF l ce] show ?thesis by auto
      qed
    next
      case True
      with fnd have cf: "cleanFn n (Some ?info) None d = Inr (os_RemoveAll n d)"
        by (simp add: cleanFn_def)
      obtain er d1 where r: "os_RemoveAll n d = (er, d1)" by (cases "os_RemoveAll n d")
      note sh = os_RemoveAll_shrinks[OF r]
      show ?thesis
      proof (cases er)
        case None
        note ok = os_RemoveAll_name[OF wf pn c r[unfolded None]]
        from readDirNames_dir[OF l] True obtain kd where
          rd: "readDirNames n d = Inr (sort (child_names kd d))"
          by (auto simp: f)
        have names: "\<forall>m \<in> set (sort (child_names kd d)). plain_name m"
          using child_names_plain[OF wf] by simp
        from ok[of "cwd d"] c sh(3) have c1: "lookup d1 (cwd d1) = Some Directory"
          by (simp add: at_or_below_def)
        from ok[of ?k] sh(3) have gone: "lookup d1 (cwd d1 @ [n]) = None"
          by (simp add: at_or_below_def)
        have "walk_disk cleanFn (Inl (n, ?info)) d
            = walk_disk cleanFn (Inr (n, sort (child_names kd d))) d1"
          using walk_disk_dir[where walkFn = cleanFn, OF _ rd, of ?info d1] True cf r None
          by simp
        also have "\<dots> = Some (Inr (None, d1))"
          using walk_disk_skips_removed[OF pn c1 gone names] .
        finally have w: "walk_disk cleanFn (Inl (Join [''.'', n], ?info)) d = Some (Inr (None, d1))"
          by (simp add: f)
        from walk_disk_visited[where walkFn = cleanFn, OF l w] sh ok show ?thesis
          by auto
      next
        case (Some e1)
        from cf r Some have ce: "cleanFn (Join [''.'', n]) (Some ?info) None d = Inr (Some e1, d1)"
          by (simp add: f)
        from cleanFn_error[OF ce] have "e1 \<noteq> SkipDir" by auto
        with walk_disk_entry_error[OF l ce] show ?thesis by auto
      qed
    qed
  qed
qed

lemma clean_loop:
  "wf_disk d \<Longrightarrow> lookup d (cwd d) = Some Directory \<Longrightarrow> \<forall>n \<in> set names. plain_name n \<Longrightarrow>
     \<exists>err d'. walk_disk cleanFn (Inr (''.'', names)) d = Some (Inr (err, d'))
        \<and> err \<noteq> Some SkipDir
        \<and> (err = None \<longrightarrow> cwd d' = cwd d
             \<and> (\<forall>k. lookup d' k =
                    (if \<exists>n \<in> set names. at_or_below (cwd d @ [n]) k then None else lookup d k)))"
proof (induction names arbitrary: d)
  case Nil
  show ?case by (simp add: walk_disk_done)
next
  case (Cons n names)
  then have pn: "plain_name n" and pns: "\<forall>n \<in> set names. plain_name n" by simp_all
  from clean_step[OF Cons.prems(1,2) pn, of names] show ?case
  proof
    assume "\<exists>e d1. walk_disk cleanFn (Inr (''.'', n # names)) d = Some (Inr (Some e, d1))
                 \<and> e \<noteq> SkipDir"
    then show ?thesis by auto
  next
    assume "\<exists>d1. walk_disk cleanFn (Inr (''.'', n # names)) d = walk_disk cleanFn (Inr (''.'', names)) d1
                 \<and> set (entries d1) \<subseteq> set (entries d) \<and> cwd d1 = cwd d
                 \<and> (\<forall>k. lookup d1 k = (if at_or_below (cwd d @ [n]) k then None else lookup d k))"
    then obtain d1 where eq: "walk_disk cleanFn (Inr (''.'', n # names)) d = walk_disk cleanFn (Inr (''.'', names)) d1"
      and sub: "set (entries d1) \<subseteq> set (entries d)" and cw: "cwd d1 = cwd d"
      and l1: "\<forall>k. lookup d1 k = (if at_or_below (cwd d @ [n]) k then None else lookup d k)"
      by blast
    have wf1: "wf_disk d1"
      using wf_without[OF Cons.prems(1) sub _ l1] by simp
    from l1 Cons.prems(2) cw have c1: "lookup d1 (cwd d1) = Some Directory"
      by (simp add: at_or_below_def)
    from Cons.IH[OF wf1 c1 pns] obtain err d' where
      w: "walk_disk cleanFn (Inr (''.'', names)) d1 = Some (Inr (err, d'))"
      and ns: "err \<noteq> Some SkipDir"
      and post: "err = None \<longrightarrow> cwd d' = cwd d1
             \<and> (\<forall>k. lookup d' k =
                    (if \<exists>n \<in> set names. at_or_below (cwd d1 @ [n]) k then None else lookup d1 k))"
      by blast
    have "err = None \<longrightarrow> cwd d' = cwd d
             \<and> (\<forall>k. lookup d' k =
                    (if \<exists>m \<in> set (n # names). at_or_below (cwd d @ [m]) k then None else lookup d k))"
      using post l1 cw by auto
    with eq w ns show ?thesis by auto
  qed
qed

text \<open>
  The whole traversal of the current directory returns on every well-formed disk;
  when it returns \<open>nil\<close>, every entry below the current directory is gone and
  nothing else has changed.
\<close>

lemma Walk_disk_clean:
  assumes "wf_disk d"
  shows "\<exists>err d'. Walk_disk ''.'' cleanFn d = Some (Inr (err, d'))
          \<and> (err = None \<longrightarrow> cwd d' = cwd d
                \<and> (\<forall>k. lookup d' k =
                   (if at_or_below (cwd d) k \<and> k \<noteq> cwd d then None else lookup d k)))"
proof (cases "lookup d (cwd d) = Some Directory")
  case False
  have below: "lookup d k = None" if "at_or_below (cwd d) k" "k \<noteq> cwd d" for k
    using wf_nothing_below[OF assms False that] .
  from False have "\<exists>e. os_Lstat ''.'' d = Inl e"
    by (cases "lookup d (cwd d)")
       (auto simp: os_Lstat_def os_Stat_def resolve_def locate_dot step.simps split: entry.splits)
  then obtain e where "os_Lstat ''.'' d = Inl e" by blast
  then have "Walk_disk ''.'' cleanFn d = Some (Inr (None, d))"
    by (simp add: Walk_disk_def cleanFn_def)
  with below show ?thesis by auto
next
  case True
  let ?names = "sort (child_names (cwd d) d)"
  from True have l: "os_Lstat ''.'' d = Inr (FileInfo True)"
    by (simp add: os_Lstat_def os_Stat_def resolve_dot)
  have rd: "readDirNames ''.'' d = Inr ?names"
    using True by (simp add: readDirNames_def resolve_dot)
  have c: "cleanFn ''.'' (Some (FileInfo True)) None d = Inr (None, d)"
    by (simp add: cleanFn_def)
  have w: "walk_disk cleanFn (Inl (''.'', FileInfo True)) d = walk_disk cleanFn (Inr (''.'', ?names)) d"
    using walk_disk_dir[where walkFn = cleanFn, OF _ rd c] by simp
  have pn: "\<forall>n \<in> set ?names. plain_name n"
    using child_names_plain[OF assms] by simp
  from clean_loop[OF assms True pn] obtain err d' where
    r: "walk_disk cleanFn (Inr (''.'', ?names)) d = Some (Inr (err, d'))"
    and ns: "err \<noteq> Some SkipDir"
    and post: "err = None \<longrightarrow> cwd d' = cwd d \<and>
                 (\<forall>k. lookup d' k =
                    (if \<exists>n \<in> set ?names. at_or_below (cwd d @ [n]) k then None else lookup d k))"
    by blast
  from l w r ns have res: "Walk_disk ''.'' cleanFn d = Some (Inr (err, d'))"
    by (simp add: Walk_disk_def)
  have fin: "lookup d' k = (if at_or_below (cwd d) k \<and> k \<noteq> cwd d then None else lookup d k)"
    if e: "err = None" for k
  proof -
    from post e have pk: "lookup d' k =
        (if \<exists>n \<in> set ?names. at_or_below (cwd d @ [n]) k then None else lookup d k)" by blast
    show ?thesis
    proof (cases "\<exists>n \<in> set ?names. at_or_below (cwd d @ [n]) k")
      case True
      then obtain n where nb: "at_or_below (cwd d @ [n]) k" by blast
      then obtain rest where "k = (cwd d @ [n]) @ rest" using below_is_append by blast
      then have "at_or_below (cwd d) k \<and> k \<noteq> cwd d"
        by (auto simp: at_or_below_def)
      with pk True show ?thesis by simp
    next
      case nb: False
      show ?thesis
      proof (cases "at_or_below (cwd d) k \<and> k \<noteq> cwd d")
        case False
        with pk nb show ?thesis by auto
      next
        case below: True
        then obtain rest where k: "k = cwd d @ rest" and ne: "rest \<noteq> []"
          using below_is_append[of "cwd d" k] by auto
        have "lookup d k = None"
        proof (rule ccontr)
          assume ex: "lookup d k \<noteq> None"
          obtain n rest' where rest: "rest = n # rest'" using ne by (cases rest) auto
          have top: "lookup d (cwd d @ [n]) \<noteq> None"
          proof (cases "rest' = []")
            case True
            with ex k rest show ?thesis by simp
          next
            case False
            from ex k rest have "lookup d ((cwd d @ [n]) @ rest') \<noteq> None" by simp
            from wf_ancestor[OF assms this False] show ?thesis by simp
          qed
          then obtain e0 where "lookup d (cwd d @ [n]) = Some e0" by blast
          then have "(cwd d @ [n], e0) \<in> set (entries d)" by (simp add: lookup_in_entries)
          then have "n \<in> set (child_names (cwd d) d)"
            by (force simp: child_names_def)
          moreover have "at_or_below (cwd d @ [n]) k"
            using k rest by (simp add: at_or_below_def)
          ultimately show False using nb by auto
        qed
        with pk nb below show ?thesis by simp
      qed
    qed
  qed
  from post fin have "err = None \<longrightarrow> cwd d' = cwd d
      \<and> (\<forall>k. lookup d' k = (if at_or_below (cwd d) k \<and> k \<noteq> cwd d then None else lookup d k))"
    by simp
  with res show ?thesis by blast
qed

lemma CreateProject_dot_returns:
  assumes "wf_disk d"
  shows "\<exists>err d'. CreateProject c rank ''.'' options d = Some (Inr (err, d'))"
proof -
  from Walk_disk_clean[OF assms] obtain err d' where
    w: "Walk_disk ''.'' cleanFn d = Some (Inr (err, d'))" by blast
  show ?thesis
  proof (cases "IsSafeToRemove d ''.'' (Overwrite options)")
    case False
    then show ?thesis by (simp add: CreateProject_def)
  next
    case True
    with w show ?thesis
      by (cases "project_layout c rank ''.'' d'") (auto simp: CreateProject_def)
  qed
qed

section \<open>Properties of CreateProject and CreateTheme\<close>

subsection \<open>The overwrite guard\<close>

text \<open>
  C3. When the project path exists on the disk and overwriting was not asked for,
  \<open>CreateProject\<close> returns \<open>ErrProjectExists\<close> and the disk is as it was: the guard
  returns before anything is removed, created or written.
\<close>

theorem CreateProject_refuses_existing:
  assumes "os_Stat p d = Inr info" and "\<not> Overwrite options"
  shows "CreateProject c rank p options d = Some (Inr (Some ErrProjectExists, d))"
  using assms by (simp add: CreateProject_def IsSafeToRemove_def err_of_def)

theorem CreateProject_refuses_existing_witness:
  "os_Stat ''site'' \<lparr>entries = [([''work''], Directory), ([''work'', ''site''], Directory),
                               ([''work'', ''site'', ''verless.yml''], RegularFile ''old'')],
                    cwd = [''work''], undeletable = []\<rparr> = Inr (FileInfo True)
   \<and> \<not> Overwrite \<lparr>Overwrite = False\<rparr>
   \<and> CreateProject example_config length ''site'' \<lparr>Overwrite = False\<rparr>
        \<lparr>entries = [([''work''], Directory), ([''work'', ''site''], Directory),
                    ([''work'', ''site'', ''verless.yml''], RegularFile ''old'')],
           cwd = [''work''], undeletable = []\<rparr>
      = Some (Inr (Some (ErrorString ''project already exists, use --overwrite to remove it''),
           \<lparr>entries = [([''work''], Directory), ([''work'', ''site''], Directory),
                       ([''work'', ''site'', ''verless.yml''], RegularFile ''old'')],
              cwd = [''work''], undeletable = []\<rparr>))"
proof -
  let ?d = "\<lparr>entries = [([''work''], Directory), ([''work'', ''site''], Directory),
                        ([''work'', ''site'', ''verless.yml''], RegularFile ''old'')],
               cwd = [''work''], undeletable = []\<rparr>"
  have h1: "os_Stat ''site'' ?d = Inr (FileInfo True)" by code_simp
  have h2: "\<not> Overwrite \<lparr>Overwrite = False\<rparr>" by simp
  from CreateProject_refuses_existing[OF h1 h2, of example_config length] h1 h2 show ?thesis
    by (simp add: ErrProjectExists_def)
qed


subsection \<open>Themes\<close>

text \<open>
  C7 (as amended). When \<open>os.Stat\<close> reports that the project path is missing (\<open>ENOENT\<close>,
  the error for which \<open>os.IsNotExist\<close> holds), \<open>CreateTheme\<close> returns
  \<open>ErrProjectNotExists\<close>, whatever the theme name, and the disk is as it was: no
  directory and no file has been created. That is so for a name that the current
  directory does not hold.
\<close>

theorem CreateTheme_missing_project:
  "(os_Stat (Project options) d = Inl ENOENT \<longrightarrow>
      CreateTheme c rank options name d = (Some ErrProjectNotExists, d))
   \<and> (plain_name n \<and> lookup d (cwd d) = Some Directory \<and> lookup d (cwd d @ [n]) = None \<longrightarrow>
      CreateTheme c rank \<lparr>Project = n\<rparr> name d = (Some ErrProjectNotExists, d))"
proof (intro conjI impI)
  assume "os_Stat (Project options) d = Inl ENOENT"
  then show "CreateTheme c rank options name d = (Some ErrProjectNotExists, d)"
    by (simp add: CreateTheme_def err_of_def)
next
  assume a: "plain_name n \<and> lookup d (cwd d) = Some Directory \<and> lookup d (cwd d @ [n]) = None"
  then have "os_Stat n d = Inl ENOENT"
    by (simp add: os_Stat_def resolve_name)
  then show "CreateTheme c rank \<lparr>Project = n\<rparr> name d = (Some ErrProjectNotExists, d)"
    by (simp add: CreateTheme_def err_of_def)
qed

theorem CreateTheme_missing_project_witness:
  "os_Stat (Project \<lparr>Project = ''work/../blog''\<rparr>)
      \<lparr>entries = [([''home''], Directory), ([''home'', ''work''], Directory)],
         cwd = [''home''], undeletable = []\<rparr>
     = Inl ENOENT
   \<and> CreateTheme example_config length \<lparr>Project = ''work/../blog''\<rparr> ''dark''
        \<lparr>entries = [([''home''], Directory), ([''home'', ''work''], Directory)],
           cwd = [''home''], undeletable = []\<rparr>
      = (Some (ErrorString ''project doesn't exist yet, create it first''),
         \<lparr>entries = [([''home''], Directory), ([''home'', ''work''], Directory)],
            cwd = [''home''], undeletable = []\<rparr>)
   \<and> plain_name ''blog''
   \<and> CreateTheme example_config length \<lparr>Project = ''blog''\<rparr> ''dark''
        \<lparr>entries = [([''home''], Directory), ([''home'', ''work''], Directory)],
           cwd = [''home''], undeletable = []\<rparr>
      = (Some (ErrorString ''project doesn't exist yet, create it first''),
         \<lparr>entries = [([''home''], Directory), ([''home'', ''work''], Directory)],
            cwd = [''home''], undeletable = []\<rparr>)"
proof -
  let ?d = "\<lparr>entries = [([''home''], Directory), ([''home'', ''work''], Directory)],
               cwd = [''home''], undeletable = []\<rparr>"
  have h: "os_Stat (Project \<lparr>Project = ''work/../blog''\<rparr>) ?d = Inl ENOENT" by code_simp
  have p: "plain_name ''blog''" by (simp add: plain_name_def Separator_def)
  have l: "lookup ?d (cwd ?d) = Some Directory \<and> lookup ?d (cwd ?d @ [''blog'']) = None"
    by (simp add: lookup_def)
  note t = CreateTheme_missing_project[where d = ?d and c = example_config and rank = length
             and name = "''dark''"]
  from t[where options = "\<lparr>Project = ''work/../blog''\<rparr>"] h
  have c1: "CreateTheme example_config length \<lparr>Project = ''work/../blog''\<rparr> ''dark'' ?d
              = (Some ErrProjectNotExists, ?d)" by blast
  from t[where n = "''blog''"] p l
  have c2: "CreateTheme example_config length \<lparr>Project = ''blog''\<rparr> ''dark'' ?d
              = (Some ErrProjectNotExists, ?d)" by blast
  from h p c1 c2 show ?thesis
    by (simp add: ErrProjectNotExists_def)
qed

text \<open>
  A project path that does not exist and for which \<open>CreateTheme\<close> does not return
  \<open>ErrProjectNotExists\<close>: the path \<open>z.txt/sub\<close>, where \<open>z.txt\<close> is a regular file.
  Nothing has that name, but \<open>os.Stat\<close> fails with \<open>ENOTDIR\<close>, for which
  \<open>os.IsNotExist\<close> is false, so the first guard lets the path through; the test for
  the theme's directory fails in the same way, which \<open>theme.Exists\<close> takes for a
  directory that is there, and the call returns \<open>ErrThemeExists\<close>.
\<close>

theorem CreateTheme_project_below_file:
  "os_Stat ''z.txt/sub''
      \<lparr>entries = [([''home''], Directory), ([''home'', ''z.txt''], RegularFile ''z'')],
         cwd = [''home''], undeletable = []\<rparr>
     = Inl ENOTDIR
   \<and> lookup \<lparr>entries = [([''home''], Directory), ([''home'', ''z.txt''], RegularFile ''z'')],
              cwd = [''home''], undeletable = []\<rparr> [''home'', ''z.txt'', ''sub''] = None
   \<and> CreateTheme example_config length \<lparr>Project = ''z.txt/sub''\<rparr> ''dark''
        \<lparr>entries = [([''home''], Directory), ([''home'', ''z.txt''], RegularFile ''z'')],
           cwd = [''home''], undeletable = []\<rparr>
      = (Some ErrThemeExists,
         \<lparr>entries = [([''home''], Directory), ([''home'', ''z.txt''], RegularFile ''z'')],
            cwd = [''home''], undeletable = []\<rparr>)
   \<and> ErrThemeExists \<noteq> ErrProjectNotExists"
  by code_simp

text \<open>
  C8. When \<open>CreateTheme\<close> has succeeded, a second call with the same project and the
  same theme name, on the disk the first call has left, returns \<open>ErrThemeExists\<close> and
  leaves that disk as it is.
\<close>

theorem CreateTheme_twice:
  assumes "CreateTheme c rank options name d = (None, d')"
  shows "CreateTheme c rank options name d' = (Some ErrThemeExists, d')"
proof -
  let ?P = "Project options"
  let ?D = "theme_Dir c ?P name"
  let ?dirs = "[theme_TemplateDir c ?P name, theme_CssDir c ?P name, theme_JsDir c ?P name]"
  let ?files = "map_literal
                  [(Join [theme_TemplateDir c ?P name, ListPageTpl c], []),
                   (Join [theme_TemplateDir c ?P name, PageTpl c], []),
                   (Join [?D, ''theme.yml''], defaultThemeConfig c)]"
  from assms have ex: "\<not> IsNotExist (err_of (os_Stat ?P d))"
    by (auto simp: CreateTheme_def split: if_splits)
  with assms have nt: "\<not> theme_Exists c d ?P name"
    by (auto simp: CreateTheme_def ErrThemeExists_def split: if_splits)
  obtain e1 d1 where m: "mkdir_each ?dirs d = (e1, d1)" by (cases "mkdir_each ?dirs d")
  from assms ex nt m have e1: "e1 = None" and w: "createFiles rank ?files d1 = (None, d')"
    by (auto simp: CreateTheme_def Let_def split: option.splits)
  have g: "grows d d'"
    using mkdir_each_grows[OF m] createFiles_grows[OF w] grows_trans by blast
  from os_Stat_grows[OF g ex] have ex': "\<not> IsNotExist (err_of (os_Stat ?P d'))" .
  have P: "?P \<noteq> []"
  proof
    assume "?P = []"
    then have "os_Stat ?P d = Inl ENOENT"
      by (simp add: os_Stat_def resolve_def locate_def)
    with ex show False by (simp add: err_of_def)
  qed
  then have "?D = Clean (join_sep [?P, ThemesDir c, name])"
    by (simp add: theme_Dir_def Join_def)
  then have D: "Clean ?D = ?D" by (simp add: Clean_idem)
  have x: "plain_name ''theme.yml''" by (simp add: plain_name_def Separator_def)
  have "(Join [?D, ''theme.yml''], defaultThemeConfig c) \<in> set ?files"
    by (simp add: map_literal_def assign_mem)
  from createFiles_dir[OF w this D x] obtain k where
    "locate d' ?D = Inr k" "lookup d' k = Some Directory" by blast
  then have "os_Stat ?D d' = Inr (FileInfo True)"
    by (simp add: os_Stat_def resolve_def)
  then have "theme_Exists c d' ?P name"
    by (simp add: theme_Exists_def err_of_def)
  with ex' show ?thesis
    by (simp add: CreateTheme_def)
qed

theorem CreateTheme_twice_witness:
  "CreateTheme example_config length \<lparr>Project = ''site''\<rparr> ''dark''
     \<lparr>entries = [([''work''], Directory), ([''work'', ''site''], Directory)],
        cwd = [''work''], undeletable = []\<rparr>
   = (None,
      \<lparr>entries =
         [([''work''], Directory), ([''work'', ''site''], Directory),
          ([''work'', ''site'', ''themes''], Directory),
          ([''work'', ''site'', ''themes'', ''dark''], Directory),
          ([''work'', ''site'', ''themes'', ''dark'', ''templates''], Directory),
          ([''work'', ''site'', ''themes'', ''dark'', ''css''], Directory),
          ([''work'', ''site'', ''themes'', ''dark'', ''js''], Directory),
          ([''work'', ''site'', ''themes'', ''dark'', ''theme.yml''], RegularFile ''version: 1''),
          ([''work'', ''site'', ''themes'', ''dark'', ''templates'', ''page.html''], RegularFile []),
          ([''work'', ''site'', ''themes'', ''dark'', ''templates'', ''list-page.html''], RegularFile [])],
       cwd = [''work''], undeletable = []\<rparr>)
   \<and> CreateTheme example_config length \<lparr>Project = ''site''\<rparr> ''dark''
       \<lparr>entries =
         [([''work''], Directory), ([''work'', ''site''], Directory),
          ([''work'', ''site'', ''themes''], Directory),
          ([''work'', ''site'', ''themes'', ''dark''], Directory),
          ([''work'', ''site'', ''themes'', ''dark'', ''templates''], Directory),
          ([''work'', ''site'', ''themes'', ''dark'', ''css''], Directory),
          ([''work'', ''site'', ''themes'', ''dark'', ''js''], Directory),
          ([''work'', ''site'', ''themes'', ''dark'', ''theme.yml''], RegularFile ''version: 1''),
          ([''work'', ''site'', ''themes'', ''dark'', ''templates'', ''page.html''], RegularFile []),
          ([''work'', ''site'', ''themes'', ''dark'', ''templates'', ''list-page.html''], RegularFile [])],
       cwd = [''work''], undeletable = []\<rparr>
     = (Some (ErrorString ''theme already exists, remove it first''),
      \<lparr>entries =
         [([''work''], Directory), ([''work'', ''site''], Directory),
          ([''work'', ''site'', ''themes''], Directory),
          ([''work'', ''site'', ''themes'', ''dark''], Directory),
          ([''work'', ''site'', ''themes'', ''dark'', ''templates''], Directory),
          ([''work'', ''site'', ''themes'', ''dark'', ''css''], Directory),
          ([''work'', ''site'', ''themes'', ''dark'', ''js''], Directory),
          ([''work'', ''site'', ''themes'', ''dark'', ''theme.yml''], RegularFile ''version: 1''),
          ([''work'', ''site'', ''themes'', ''dark'', ''templates'', ''page.html''], RegularFile []),
          ([''work'', ''site'', ''themes'', ''dark'', ''templates'', ''list-page.html''], RegularFile [])],
       cwd = [''work''], undeletable = []\<rparr>)"
proof -
  let ?d = "\<lparr>entries = [([''work''], Directory), ([''work'', ''site''], Directory)],
               cwd = [''work''], undeletable = []\<rparr>"
  let ?d' = "\<lparr>entries =
         [([''work''], Directory), ([''work'', ''site''], Directory),
          ([''work'', ''site'', ''themes''], Directory),
          ([''work'', ''site'', ''themes'', ''dark''], Directory),
          ([''work'', ''site'', ''themes'', ''dark'', ''templates''], Directory),
          ([''work'', ''site'', ''themes'', ''dark'', ''css''], Directory),
          ([''work'', ''site'', ''themes'', ''dark'', ''js''], Directory),
          ([''work'', ''site'', ''themes'', ''dark'', ''theme.yml''], RegularFile ''version: 1''),
          ([''work'', ''site'', ''themes'', ''dark'', ''templates'', ''page.html''], RegularFile []),
          ([''work'', ''site'', ''themes'', ''dark'', ''templates'', ''list-page.html''], RegularFile [])],
       cwd = [''work''], undeletable = []\<rparr>"
  have h: "CreateTheme example_config length \<lparr>Project = ''site''\<rparr> ''dark'' ?d = (None, ?d')"
    by code_simp
  from CreateTheme_twice[OF h] h show ?thesis
    by (simp add: ErrThemeExists_def)
qed

subsection \<open>The cleanup of the current directory\<close>

text \<open>
  C6. The cleanup of the current directory. The callback returns \<open>nil\<close> and changes
  nothing when it is told that the entry does not exist; it returns \<open>nil\<close> and changes
  nothing for the path \<open>.\<close>; any other entry is removed with \<open>os.RemoveAll\<close> when it
  is a directory and with \<open>os.Remove\<close> when it is not. When \<open>.\<close> is a directory, the
  traversal is the loop over the sorted names of its entries. An entry whose removal
  fails ends that loop with the error. Whenever the traversal returns an error,
  \<open>CreateProject\<close> returns the error "Cannot remove existing files from current
  directory." without going on, on the disk as the traversal left it; whenever the
  traversal returns \<open>nil\<close>, \<open>CreateProject\<close> goes on to lay out the project on the disk
  as the traversal left it, and returns what that gives. On a well-formed disk the
  traversal always returns, and when it returns \<open>nil\<close> every entry below the current
  directory is gone while the current directory itself and everything outside it are
  as before; so \<open>CreateProject\<close> for \<open>.\<close> always returns, with the fixed error or with
  the layout made on the emptied directory.
\<close>

theorem CreateProject_cleans_current_directory:
  "(IsNotExist err \<longrightarrow> cleanFn path info err d = Inr (None, d))
   \<and> (\<not> IsNotExist err \<longrightarrow> cleanFn ''.'' info err d = Inr (None, d))
   \<and> (\<not> IsNotExist err \<and> path \<noteq> ''.'' \<longrightarrow>
        cleanFn path (Some (FileInfo True)) err d = Inr (os_RemoveAll path d)
      \<and> cleanFn path (Some (FileInfo False)) err d = Inr (os_Remove path d))
   \<and> (os_Lstat ''.'' d = Inr (FileInfo True) \<longrightarrow>
        Walk_disk ''.'' cleanFn d =
          (case walk_disk cleanFn (Inr (''.'', sort (child_names (cwd d) d))) d of
             None \<Rightarrow> None
           | Some (Inl p) \<Rightarrow> Some (Inl p)
           | Some (Inr (e, d')) \<Rightarrow>
               if e = Some SkipDir then Some (Inr (None, d')) else Some (Inr (e, d'))))
   \<and> (os_Lstat (Join [''.'', name]) d = Inr fi
        \<and> cleanFn (Join [''.'', name]) (Some fi) None d = Inr (Some e, d') \<longrightarrow>
        walk_disk cleanFn (Inr (''.'', name # rest)) d = Some (Inr (Some e, d')))
   \<and> (IsSafeToRemove d ''.'' (Overwrite options)
        \<and> Walk_disk ''.'' cleanFn d = Some (Inr (Some e, d')) \<longrightarrow>
        CreateProject c rank ''.'' options d =
          Some (Inr (Some (ErrorString ''Cannot remove existing files from current directory.''), d')))
   \<and> (IsSafeToRemove d ''.'' (Overwrite options)
        \<and> Walk_disk ''.'' cleanFn d = Some (Inr (None, d')) \<longrightarrow>
        CreateProject c rank ''.'' options d = Some (Inr (project_layout c rank ''.'' d')))
   \<and> (IsSafeToRemove d ''.'' (Overwrite options)
        \<and> Walk_disk ''.'' cleanFn d = Some (Inl pn) \<longrightarrow>
        CreateProject c rank ''.'' options d = Some (Inl pn))
   \<and> (wf_disk d \<longrightarrow>
        (\<exists>r d1. Walk_disk ''.'' cleanFn d = Some (Inr (r, d1))
           \<and> (r = None \<longrightarrow> cwd d1 = cwd d
                \<and> (\<forall>k. lookup d1 k =
                     (if at_or_below (cwd d) k \<and> k \<noteq> cwd d then None else lookup d k)))
           \<and> (IsSafeToRemove d ''.'' (Overwrite options) \<longrightarrow>
                CreateProject c rank ''.'' options d =
                  Some (Inr (if r = None then project_layout c rank ''.'' d1
                             else (Some (ErrorString ''Cannot remove existing files from current directory.''),
                                   d1)))))
        \<and> (\<exists>r d1. CreateProject c rank ''.'' options d = Some (Inr (r, d1))))"
proof (intro conjI impI)
  assume "IsNotExist err"
  then show "cleanFn path info err d = Inr (None, d)" by (simp add: cleanFn_def)
next
  assume "\<not> IsNotExist err"
  then show "cleanFn ''.'' info err d = Inr (None, d)" by (simp add: cleanFn_def)
next
  assume "\<not> IsNotExist err \<and> path \<noteq> ''.''"
  then show "cleanFn path (Some (FileInfo True)) err d = Inr (os_RemoveAll path d)"
    by (simp add: cleanFn_def)
next
  assume "\<not> IsNotExist err \<and> path \<noteq> ''.''"
  then show "cleanFn path (Some (FileInfo False)) err d = Inr (os_Remove path d)"
    by (simp add: cleanFn_def)
next
  assume l: "os_Lstat ''.'' d = Inr (FileInfo True)"
  then have dir: "lookup d (cwd d) = Some Directory"
    by (cases "lookup d (cwd d)")
       (auto simp: os_Lstat_def os_Stat_def resolve_def locate_dot step.simps
             split: entry.splits option.splits if_splits)
  have r: "readDirNames ''.'' d = Inr (sort (child_names (cwd d) d))"
    using dir by (simp add: readDirNames_def resolve_dot)
  have f: "cleanFn ''.'' (Some (FileInfo True)) None d = Inr (None, d)"
    by (simp add: cleanFn_def)
  have "walk_disk cleanFn (Inl (''.'', FileInfo True)) d
      = walk_disk cleanFn (Inr (''.'', sort (child_names (cwd d) d))) d"
    by (subst walk_disk.simps) (simp add: r f err_of_def)
  with l show "Walk_disk ''.'' cleanFn d =
          (case walk_disk cleanFn (Inr (''.'', sort (child_names (cwd d) d))) d of
             None \<Rightarrow> None
           | Some (Inl p) \<Rightarrow> Some (Inl p)
           | Some (Inr (e, d')) \<Rightarrow>
               if e = Some SkipDir then Some (Inr (None, d')) else Some (Inr (e, d')))"
    by (simp add: Walk_disk_def)
next
  assume "os_Lstat (Join [''.'', name]) d = Inr fi
        \<and> cleanFn (Join [''.'', name]) (Some fi) None d = Inr (Some e, d')"
  then show "walk_disk cleanFn (Inr (''.'', name # rest)) d = Some (Inr (Some e, d'))"
    using walk_disk_entry_error by blast
next
  assume "IsSafeToRemove d ''.'' (Overwrite options)
        \<and> Walk_disk ''.'' cleanFn d = Some (Inr (Some e, d'))"
  then show "CreateProject c rank ''.'' options d =
          Some (Inr (Some (ErrorString ''Cannot remove existing files from current directory.''), d'))"
    by (simp add: CreateProject_def)
next
  assume "IsSafeToRemove d ''.'' (Overwrite options)
        \<and> Walk_disk ''.'' cleanFn d = Some (Inr (None, d'))"
  then show "CreateProject c rank ''.'' options d = Some (Inr (project_layout c rank ''.'' d'))"
    by (simp add: CreateProject_def)
next
  assume "IsSafeToRemove d ''.'' (Overwrite options)
        \<and> Walk_disk ''.'' cleanFn d = Some (Inl pn)"
  then show "CreateProject c rank ''.'' options d = Some (Inl pn)"
    by (simp add: CreateProject_def)
next
  assume "wf_disk d"
  from Walk_disk_clean[OF this] obtain r d1 where
    w: "Walk_disk ''.'' cleanFn d = Some (Inr (r, d1))"
    and post: "r = None \<longrightarrow> cwd d1 = cwd d
                \<and> (\<forall>k. lookup d1 k =
                     (if at_or_below (cwd d) k \<and> k \<noteq> cwd d then None else lookup d k))"
    by blast
  have "IsSafeToRemove d ''.'' (Overwrite options) \<longrightarrow>
                CreateProject c rank ''.'' options d =
                  Some (Inr (if r = None then project_layout c rank ''.'' d1
                             else (Some (ErrorString ''Cannot remove existing files from current directory.''),
                                   d1)))"
    using w by (simp add: CreateProject_def)
  with w post show "\<exists>r d1. Walk_disk ''.'' cleanFn d = Some (Inr (r, d1))
           \<and> (r = None \<longrightarrow> cwd d1 = cwd d
                \<and> (\<forall>k. lookup d1 k =
                     (if at_or_below (cwd d) k \<and> k \<noteq> cwd d then None else lookup d k)))
           \<and> (IsSafeToRemove d ''.'' (Overwrite options) \<longrightarrow>
                CreateProject c rank ''.'' options d =
                  Some (Inr (if r = None then project_layout c rank ''.'' d1
                             else (Some (ErrorString ''Cannot remove existing files from current directory.''),
                                   d1))))"
    by blast
next
  assume "wf_disk d"
  then show "\<exists>r d1. CreateProject c rank ''.'' options d = Some (Inr (r, d1))"
    by (rule CreateProject_dot_returns)
qed

theorem CreateProject_cleans_current_directory_witness:
  "IsNotExist (Some (PathError ENOENT))
   \<and> cleanFn ''a/b'' None (Some (PathError ENOENT))
        \<lparr>entries = [([''work''], Directory)], cwd = [''work''], undeletable = []\<rparr>
      = Inr (None, \<lparr>entries = [([''work''], Directory)], cwd = [''work''], undeletable = []\<rparr>)
   \<and> IsSafeToRemove
        \<lparr>entries = [([''work''], Directory), ([''work'', ''a''], Directory),
                    ([''work'', ''a'', ''b''], Directory),
                    ([''work'', ''a'', ''b'', ''c.txt''], RegularFile ''x''),
                    ([''work'', ''z.txt''], RegularFile ''y''),
                    ([''home.txt''], RegularFile ''h'')],
           cwd = [''work''], undeletable = [[''work'', ''a'', ''b'']]\<rparr>
        ''.'' (Overwrite \<lparr>Overwrite = True\<rparr>)
   \<and> Walk_disk ''.'' cleanFn
        \<lparr>entries = [([''work''], Directory), ([''work'', ''a''], Directory),
                    ([''work'', ''a'', ''b''], Directory),
                    ([''work'', ''a'', ''b'', ''c.txt''], RegularFile ''x''),
                    ([''work'', ''z.txt''], RegularFile ''y''),
                    ([''home.txt''], RegularFile ''h'')],
           cwd = [''work''], undeletable = [[''work'', ''a'', ''b'']]\<rparr>
      = Some (Inr (Some (PathError EPERM),
           \<lparr>entries = [([''work''], Directory), ([''work'', ''a''], Directory),
                       ([''work'', ''a'', ''b''], Directory),
                       ([''work'', ''z.txt''], RegularFile ''y''),
                       ([''home.txt''], RegularFile ''h'')],
              cwd = [''work''], undeletable = [[''work'', ''a'', ''b'']]\<rparr>))
   \<and> CreateProject example_config length ''.'' \<lparr>Overwrite = True\<rparr>
        \<lparr>entries = [([''work''], Directory), ([''work'', ''a''], Directory),
                    ([''work'', ''a'', ''b''], Directory),
                    ([''work'', ''a'', ''b'', ''c.txt''], RegularFile ''x''),
                    ([''work'', ''z.txt''], RegularFile ''y''),
                    ([''home.txt''], RegularFile ''h'')],
           cwd = [''work''], undeletable = [[''work'', ''a'', ''b'']]\<rparr>
      = Some (Inr (Some (ErrorString ''Cannot remove existing files from current directory.''),
           \<lparr>entries = [([''work''], Directory), ([''work'', ''a''], Directory),
                       ([''work'', ''a'', ''b''], Directory),
                       ([''work'', ''z.txt''], RegularFile ''y''),
                       ([''home.txt''], RegularFile ''h'')],
              cwd = [''work''], undeletable = [[''work'', ''a'', ''b'']]\<rparr>))
   \<and> wf_disk \<lparr>entries = [([''work''], Directory), ([''work'', ''a''], Directory),
                         ([''work'', ''a'', ''b''], Directory),
                         ([''work'', ''a'', ''b'', ''c.txt''], RegularFile ''x''),
                         ([''work'', ''z.txt''], RegularFile ''y''),
                         ([''home.txt''], RegularFile ''h'')],
                cwd = [''work''], undeletable = []\<rparr>
   \<and> Walk_disk ''.'' cleanFn
        \<lparr>entries = [([''work''], Directory), ([''work'', ''a''], Directory),
                    ([''work'', ''a'', ''b''], Directory),
                    ([''work'', ''a'', ''b'', ''c.txt''], RegularFile ''x''),
                    ([''work'', ''z.txt''], RegularFile ''y''),
                    ([''home.txt''], RegularFile ''h'')],
           cwd = [''work''], undeletable = []\<rparr>
      = Some (Inr (None, \<lparr>entries = [([''work''], Directory), ([''home.txt''], RegularFile ''h'')],
                           cwd = [''work''], undeletable = []\<rparr>))
   \<and> CreateProject example_config length ''.'' \<lparr>Overwrite = True\<rparr>
        \<lparr>entries = [([''work''], Directory), ([''work'', ''a''], Directory),
                    ([''work'', ''a'', ''b''], Directory),
                    ([''work'', ''a'', ''b'', ''c.txt''], RegularFile ''x''),
                    ([''work'', ''z.txt''], RegularFile ''y''),
                    ([''home.txt''], RegularFile ''h'')],
           cwd = [''work''], undeletable = []\<rparr>
      = Some (Inr (None,
           \<lparr>entries =
              [([''work''], Directory), ([''home.txt''], RegularFile ''h''),
               ([''work'', ''content''], Directory),
               ([''work'', ''themes''], Directory),
               ([''work'', ''themes'', ''default''], Directory),
               ([''work'', ''themes'', ''default'', ''templates''], Directory),
               ([''work'', ''themes'', ''default'', ''css''], Directory),
               ([''work'', ''.gitignore''], RegularFile ''target/''),
               ([''work'', ''verless.yml''], RegularFile ''version: 1''),
               ([''work'', ''themes'', ''default'', ''css'', ''style.css''], RegularFile ''body {}''),
               ([''work'', ''themes'', ''default'', ''templates'', ''page.html''], RegularFile []),
               ([''work'', ''themes'', ''default'', ''templates'', ''list-page.html''],
                RegularFile ''<html></html>'')],
            cwd = [''work''], undeletable = []\<rparr>))"
proof -
  let ?locked = "\<lparr>entries = [([''work''], Directory), ([''work'', ''a''], Directory),
                    ([''work'', ''a'', ''b''], Directory),
                    ([''work'', ''a'', ''b'', ''c.txt''], RegularFile ''x''),
                    ([''work'', ''z.txt''], RegularFile ''y''),
                    ([''home.txt''], RegularFile ''h'')],
           cwd = [''work''], undeletable = [[''work'', ''a'', ''b'']]\<rparr>"
  let ?left = "\<lparr>entries = [([''work''], Directory), ([''work'', ''a''], Directory),
                       ([''work'', ''a'', ''b''], Directory),
                       ([''work'', ''z.txt''], RegularFile ''y''),
                       ([''home.txt''], RegularFile ''h'')],
              cwd = [''work''], undeletable = [[''work'', ''a'', ''b'']]\<rparr>"
  let ?free = "\<lparr>entries = [([''work''], Directory), ([''work'', ''a''], Directory),
                         ([''work'', ''a'', ''b''], Directory),
                         ([''work'', ''a'', ''b'', ''c.txt''], RegularFile ''x''),
                         ([''work'', ''z.txt''], RegularFile ''y''),
                         ([''home.txt''], RegularFile ''h'')],
                cwd = [''work''], undeletable = []\<rparr>"
  let ?emptied = "\<lparr>entries = [([''work''], Directory), ([''home.txt''], RegularFile ''h'')],
                    cwd = [''work''], undeletable = []\<rparr>"
  let ?bare = "\<lparr>entries = [([''work''], Directory)], cwd = [''work''], undeletable = []\<rparr>"
  let ?layout = "\<lparr>entries =
              [([''work''], Directory), ([''home.txt''], RegularFile ''h''),
               ([''work'', ''content''], Directory),
               ([''work'', ''themes''], Directory),
               ([''work'', ''themes'', ''default''], Directory),
               ([''work'', ''themes'', ''default'', ''templates''], Directory),
               ([''work'', ''themes'', ''default'', ''css''], Directory),
               ([''work'', ''.gitignore''], RegularFile ''target/''),
               ([''work'', ''verless.yml''], RegularFile ''version: 1''),
               ([''work'', ''themes'', ''default'', ''css'', ''style.css''], RegularFile ''body {}''),
               ([''work'', ''themes'', ''default'', ''templates'', ''page.html''], RegularFile []),
               ([''work'', ''themes'', ''default'', ''templates'', ''list-page.html''],
                RegularFile ''<html></html>'')],
            cwd = [''work''], undeletable = []\<rparr>"
  have h1: "IsNotExist (Some (PathError ENOENT))" by simp
  have h2: "IsSafeToRemove ?locked ''.'' (Overwrite \<lparr>Overwrite = True\<rparr>)"
    by (simp add: IsSafeToRemove_def)
  have h2': "IsSafeToRemove ?free ''.'' (Overwrite \<lparr>Overwrite = True\<rparr>)"
    by (simp add: IsSafeToRemove_def)
  have h3: "Walk_disk ''.'' cleanFn ?locked = Some (Inr (Some (PathError EPERM), ?left))"
    by code_simp
  have h4: "wf_disk ?free"
    by (simp add: wf_disk_def plain_name_def lookup_def Separator_def)
  have h5: "Walk_disk ''.'' cleanFn ?free = Some (Inr (None, ?emptied))"
    by code_simp
  have h6: "project_layout example_config length ''.'' ?emptied = (None, ?layout)"
    by code_simp
  note t = CreateProject_cleans_current_directory
  from t[where err = "Some (PathError ENOENT)" and path = "''a/b''" and info = None and d = ?bare] h1
  have c1: "cleanFn ''a/b'' None (Some (PathError ENOENT)) ?bare = Inr (None, ?bare)"
    by blast
  from t[where d = ?locked and options = "\<lparr>Overwrite = True\<rparr>" and e = "PathError EPERM"
           and d' = ?left and c = example_config and rank = length] h2 h3
  have c2: "CreateProject example_config length ''.'' \<lparr>Overwrite = True\<rparr> ?locked
      = Some (Inr (Some (ErrorString ''Cannot remove existing files from current directory.''), ?left))"
    by blast
  from t[where d = ?free and options = "\<lparr>Overwrite = True\<rparr>"
           and d' = ?emptied and c = example_config and rank = length] h2' h5
  have "CreateProject example_config length ''.'' \<lparr>Overwrite = True\<rparr> ?free
      = Some (Inr (project_layout example_config length ''.'' ?emptied))"
    by blast
  with h6 have c3: "CreateProject example_config length ''.'' \<lparr>Overwrite = True\<rparr> ?free
      = Some (Inr (None, ?layout))"
    by simp
  from h1 c1 h2 h3 c2 h4 h5 c3 show ?thesis by simp
qed

end
